theory Spec2Isabelle
  imports Main "HOL-Library.Word"
begin

unbundle bit_operations_syntax

section \<open>Bytes and JavaScript strings\<close>

text \<open>
  A \<^verbatim>\<open>Uint8Array\<close> or a Node \<^verbatim>\<open>Buffer\<close> is a list of 8-bit words. A JavaScript string
  that the code splits, slices or pads (a payload, an address) is a \<open>string\<close>; the
  plaintext message is only ever handed to the text encoder and received from the text
  decoder, so its type is left open (the type variable \<open>'t\<close> of the platform below).
\<close>

type_synonym byte = "8 word"
type_synonym bytes = "byte list"

text \<open>\<^verbatim>\<open>String.fromCharCode(value)\<close> on a byte and \<^verbatim>\<open>charCodeAt\<close> stored into a \<^verbatim>\<open>Uint8Array\<close>.\<close>

definition fromCharCode :: "byte \<Rightarrow> char" where
  "fromCharCode b = char_of (unat b)"

definition charCodeAt :: "char \<Rightarrow> byte" where
  "charCodeAt c = word_of_nat (of_char c)"

text \<open>\<^verbatim>\<open>s.split(sep)\<close> for a one-character separator: \<^verbatim>\<open>"".split(".")\<close> is \<^verbatim>\<open>[""]\<close>.\<close>

fun js_split :: "char \<Rightarrow> string \<Rightarrow> string list" where
  "js_split sep [] = [[]]"
| "js_split sep (c # cs) =
     (if c = sep then [] # js_split sep cs
      else (case js_split sep cs of
              [] \<Rightarrow> [[c]]
            | p # ps \<Rightarrow> (c # p) # ps))"

text \<open>
  \<^verbatim>\<open>xs.slice(start, end)\<close> and \<^verbatim>\<open>xs.slice(start)\<close> on a typed array: a negative index counts
  from the end, and both ends are clamped to the array.
\<close>

definition js_index :: "nat \<Rightarrow> int \<Rightarrow> nat" where
  "js_index len i = (if i < 0 then nat (max (int len + i) 0) else min (nat i) len)"

definition js_slice :: "'a list \<Rightarrow> int \<Rightarrow> int \<Rightarrow> 'a list" where
  "js_slice xs start end =
     (let k = js_index (length xs) start; final = js_index (length xs) end
      in take (final - k) (drop k xs))"


text \<open>\<^verbatim>\<open>s.startsWith(prefix)\<close> and \<^verbatim>\<open>s.padStart(n, c)\<close> for a one-character filler.\<close>

definition startsWith :: "string \<Rightarrow> string \<Rightarrow> bool" where
  "startsWith s prefix = (take (length prefix) s = prefix)"

definition padStart :: "string \<Rightarrow> nat \<Rightarrow> char \<Rightarrow> string" where
  "padStart s n c = replicate (n - length s) c @ s"

subsection \<open>Hexadecimal\<close>

definition hex_digit :: "nat \<Rightarrow> char" where
  "hex_digit d = ''0123456789abcdef'' ! d"

text \<open>\<^verbatim>\<open>n.toString(16)\<close> on a non-negative number.\<close>

fun to_hex :: "nat \<Rightarrow> string" where
  "to_hex n = (if n < 16 then [hex_digit n] else to_hex (n div 16) @ [hex_digit (n mod 16)])"

declare to_hex.simps [simp del]

text \<open>\<^verbatim>\<open>value.toString(16)\<close> on a \<^verbatim>\<open>bigint\<close>: a negative value prints a minus sign.\<close>

definition bigint_toString16 :: "int \<Rightarrow> string" where
  "bigint_toString16 v = (if v < 0 then CHR ''-'' # to_hex (nat (- v)) else to_hex (nat v))"

definition hex_digit_value :: "char \<Rightarrow> nat option" where
  "hex_digit_value c =
     (let n = (of_char c :: nat) in
      if 48 \<le> n \<and> n \<le> 57 then Some (n - 48)
      else if 97 \<le> n \<and> n \<le> 102 then Some (n - 87)
      else if 65 \<le> n \<and> n \<le> 70 then Some (n - 55)
      else None)"

definition is_hex_digit :: "char \<Rightarrow> bool" where
  "is_hex_digit c = (hex_digit_value c \<noteq> None)"

text \<open>The number a string of hexadecimal digits denotes, most significant digit first.\<close>

definition hex_value :: "string \<Rightarrow> nat" where
  "hex_value s = foldl (\<lambda>acc c. 16 * acc + (case hex_digit_value c of Some d \<Rightarrow> d | None \<Rightarrow> 0)) 0 s"

text \<open>The white space \<^verbatim>\<open>parseInt\<close> skips, among the code units a \<open>char\<close> can hold.\<close>

definition is_js_whitespace :: "char \<Rightarrow> bool" where
  "is_js_whitespace c = ((of_char c :: nat) \<in> {9, 10, 11, 12, 13, 32, 160})"

text \<open>
  \<^verbatim>\<open>parseInt(s, 16)\<close>: leading white space, an optional sign, an optional \<^verbatim>\<open>0x\<close>, then the
  longest run of hexadecimal digits; \<open>None\<close> is \<^verbatim>\<open>NaN\<close>.
\<close>

definition parseInt16 :: "string \<Rightarrow> int option" where
  "parseInt16 s =
     (let s1 = dropWhile is_js_whitespace s;
          neg = (take 1 s1 = ''-'');
          s2 = (if take 1 s1 = ''-'' \<or> take 1 s1 = ''+'' then drop 1 s1 else s1);
          s3 = (if take 2 s2 = ''0x'' \<or> take 2 s2 = ''0X'' then drop 2 s2 else s2);
          ds = takeWhile is_hex_digit s3
      in if ds = [] then None
         else Some ((if neg then - 1 else 1) * int (hex_value ds)))"

text \<open>Storing a number into a \<^verbatim>\<open>Uint8Array\<close>: \<^verbatim>\<open>NaN\<close> becomes 0, an integer wraps modulo 256.\<close>

definition to_uint8 :: "int option \<Rightarrow> byte" where
  "to_uint8 v = (case v of None \<Rightarrow> 0 | Some n \<Rightarrow> word_of_int n)"

text \<open>The number a byte string denotes, most significant byte first.\<close>

definition bytes_value :: "bytes \<Rightarrow> nat" where
  "bytes_value bs = foldl (\<lambda>acc b. 256 * acc + unat b) 0 bs"

text \<open>The \<open>n\<close> bytes that denote \<open>v\<close> (modulo \<open>256 ^ n\<close>), most significant byte first.\<close>

fun be_bytes :: "nat \<Rightarrow> nat \<Rightarrow> bytes" where
  "be_bytes 0 v = []"
| "be_bytes (Suc n) v = be_bytes n (v div 256) @ [word_of_nat (v mod 256)]"

section \<open>The platform the code calls\<close>

text \<open>
  The cryptographic primitives and codecs are library calls (WebCrypto, Node's
  \<^verbatim>\<open>crypto\<close> and \<^verbatim>\<open>Buffer\<close>, \<^verbatim>\<open>ethers\<close>, \<^verbatim>\<open>btoa\<close>/\<^verbatim>\<open>atob\<close>, the text codec); their code
  is not part of the repository. They are parameters of the model, collected in one
  record. A call that can throw returns an \<open>option\<close>; \<open>None\<close> is the exception.
\<close>

text \<open>The algorithm parameters object passed to \<^verbatim>\<open>crypto.subtle.encrypt/decrypt\<close>.\<close>

record aes_gcm_params =
  gcm_iv :: bytes
  gcm_additionalData :: "bytes option"
  gcm_tagLength :: "nat option"

record 't platform =
  getAddress :: "string \<Rightarrow> string option"
    \<comment> \<open>\<^verbatim>\<open>ethers.getAddress\<close>: the checksummed address, or throws\<close>
  sha256 :: "bytes \<Rightarrow> bytes"
    \<comment> \<open>\<^verbatim>\<open>crypto.subtle.digest('SHA-256', _)\<close>, \<^verbatim>\<open>createHash("sha256").update(_).digest()\<close>\<close>
  subtle_encrypt :: "aes_gcm_params \<Rightarrow> bytes \<Rightarrow> bytes \<Rightarrow> bytes"
    \<comment> \<open>\<^verbatim>\<open>crypto.subtle.encrypt(params, key, data)\<close>: ciphertext followed by the tag\<close>
  subtle_decrypt :: "aes_gcm_params \<Rightarrow> bytes \<Rightarrow> bytes \<Rightarrow> bytes option"
    \<comment> \<open>\<^verbatim>\<open>crypto.subtle.decrypt(params, key, data)\<close>: rejects with \<^verbatim>\<open>OperationError\<close>\<close>
  btoa :: "string \<Rightarrow> string"
  atob :: "string \<Rightarrow> string option"
    \<comment> \<open>throws \<^verbatim>\<open>InvalidCharacterError\<close> on a string that is not base64\<close>
  textEncode :: "'t \<Rightarrow> bytes"
    \<comment> \<open>\<^verbatim>\<open>new TextEncoder().encode(_)\<close>\<close>
  textDecode :: "bytes \<Rightarrow> 't"
    \<comment> \<open>\<^verbatim>\<open>new TextDecoder().decode(_)\<close>\<close>
  gcm_cipher :: "bytes \<Rightarrow> bytes \<Rightarrow> bytes \<Rightarrow> bytes \<times> bytes"
    \<comment> \<open>\<^verbatim>\<open>createCipheriv("aes-256-gcm", key, iv)\<close>: \<^verbatim>\<open>update\<close> and \<^verbatim>\<open>final\<close>, then \<^verbatim>\<open>getAuthTag()\<close>\<close>
  gcm_decipher :: "bytes \<Rightarrow> bytes \<Rightarrow> bytes \<Rightarrow> bytes \<Rightarrow> bytes option"
    \<comment> \<open>\<^verbatim>\<open>createDecipheriv("aes-256-gcm", key, iv)\<close>, \<^verbatim>\<open>setAuthTag(tag)\<close>, \<^verbatim>\<open>update(ciphertext)\<close>,
        \<^verbatim>\<open>final()\<close>, in the order key, iv, tag, ciphertext; \<open>None\<close> when one of them throws\<close>
  buffer_from_hex :: "string \<Rightarrow> bytes"
    \<comment> \<open>\<^verbatim>\<open>Buffer.from(_, "hex")\<close>\<close>
  buffer_to_base64 :: "bytes \<Rightarrow> string"
    \<comment> \<open>\<^verbatim>\<open>buf.toString("base64")\<close>\<close>
  buffer_from_base64 :: "string \<Rightarrow> bytes"
    \<comment> \<open>\<^verbatim>\<open>Buffer.from(_, "base64")\<close>: never throws\<close>
  buffer_from_utf8 :: "'t \<Rightarrow> bytes"
    \<comment> \<open>the bytes \<^verbatim>\<open>cipher.update(message, "utf8")\<close> reads\<close>
  buffer_to_utf8 :: "bytes \<Rightarrow> 't"
    \<comment> \<open>\<^verbatim>\<open>buf.toString("utf8")\<close>\<close>

text \<open>
  What a call of the code can throw. \<open>InvalidPayload\<close> is the one error the repository
  raises itself (\<^verbatim>\<open>new Error('Invalid encrypted message payload')\<close>, the specification's
  \<^verbatim>\<open>MalformedCiphertext\<close>); the others are raised by the platform: \<^verbatim>\<open>ethers.getAddress\<close>
  on a string that is no address, \<^verbatim>\<open>atob\<close> on a string that is not base64, and the
  cipher on a ciphertext it does not authenticate (\<^verbatim>\<open>OperationError\<close> of
  \<^verbatim>\<open>crypto.subtle.decrypt\<close>, the error of \<^verbatim>\<open>setAuthTag\<close>/\<^verbatim>\<open>decipher.final()\<close>; the
  specification's \<^verbatim>\<open>AuthenticationFailure\<close>).
\<close>

datatype error = InvalidPayload | InvalidAddress | InvalidCharacter | AuthenticationFailure

section \<open>The browser cipher: \<^verbatim>\<open>app/src/utils/crypto.ts\<close>\<close>

definition hexToBytes :: "string \<Rightarrow> bytes" where
  "hexToBytes hex =
     (let normalized = (if length hex mod 2 = 0 then hex else CHR ''0'' # hex)
      in map (\<lambda>i. to_uint8 (parseInt16 (take 2 (drop (i * 2) normalized))))
           [0..<length normalized div 2])"

definition bytesToBase64 :: "'t platform \<Rightarrow> bytes \<Rightarrow> string" where
  "bytesToBase64 P bs = btoa P (map fromCharCode bs)"

definition base64ToBytes :: "'t platform \<Rightarrow> string \<Rightarrow> error + bytes" where
  "base64ToBytes P base64 =
     (case atob P base64 of
        None \<Rightarrow> Inl InvalidCharacter
      | Some binary \<Rightarrow> Inr (map charCodeAt binary))"

text \<open>
  The key is the SHA-256 digest of the address bytes. \<^verbatim>\<open>importKey('raw', hash, ...)\<close>
  wraps the digest in a \<^verbatim>\<open>CryptoKey\<close>; the model keeps the raw bytes.
\<close>

definition deriveKeyFromAddress :: "'t platform \<Rightarrow> string \<Rightarrow> error + bytes" where
  "deriveKeyFromAddress P address =
     (case getAddress P address of
        None \<Rightarrow> Inl InvalidAddress
      | Some normalized \<Rightarrow> Inr (sha256 P (hexToBytes (drop 2 normalized))))"

definition normalizeAddress :: "'t platform \<Rightarrow> string \<Rightarrow> error + string" where
  "normalizeAddress P address =
     (case getAddress P address of None \<Rightarrow> Inl InvalidAddress | Some a \<Rightarrow> Inr a)"

text \<open>The argument of \<^verbatim>\<open>normalizeDecryptedAddress\<close> is a \<^verbatim>\<open>string | bigint\<close>.\<close>

datatype decrypted_value = Str string | BigInt int

fun normalizeDecryptedAddress :: "'t platform \<Rightarrow> decrypted_value \<Rightarrow> error + string" where
  "normalizeDecryptedAddress P (Str v) =
     normalizeAddress P (if startsWith v ''0x'' then v else ''0x'' @ v)"
| "normalizeDecryptedAddress P (BigInt v) =
     (let hex = padStart (bigint_toString16 v) 40 (CHR ''0'')
      in normalizeAddress P (''0x'' @ hex))"



definition decryptMessage :: "'t platform \<Rightarrow> string \<Rightarrow> string \<Rightarrow> error + 't" where
  "decryptMessage P payload address =
     (let parts = js_split (CHR ''.'') payload in
      if length parts \<noteq> 3 then Inl InvalidPayload
      else
        (case base64ToBytes P (parts ! 0) of
           Inl e \<Rightarrow> Inl e
         | Inr iv \<Rightarrow>
        (case base64ToBytes P (parts ! 1) of
           Inl e \<Rightarrow> Inl e
         | Inr data \<Rightarrow>
        (case base64ToBytes P (parts ! 2) of
           Inl e \<Rightarrow> Inl e
         | Inr tag \<Rightarrow>
        (let combined = data @ tag in
         case deriveKeyFromAddress P address of
           Inl e \<Rightarrow> Inl e
         | Inr key \<Rightarrow>
        (case subtle_decrypt P
                \<lparr>gcm_iv = iv, gcm_additionalData = None, gcm_tagLength = None\<rparr> key combined of
           None \<Rightarrow> Inl AuthenticationFailure
         | Some decrypted \<Rightarrow> Inr (textDecode P decrypted)))))))"

section \<open>The command-line cipher: \<^verbatim>\<open>tasks/EncryptedMessenger.ts\<close>\<close>

text \<open>
  The Hardhat tasks (and the tests, which carry the same three functions) use Node's
  \<^verbatim>\<open>crypto\<close> and \<^verbatim>\<open>Buffer\<close>. The function names that the browser file also uses get the
  suffix \<open>_node\<close>.
\<close>

definition deriveKeyFromAddress_node :: "'t platform \<Rightarrow> string \<Rightarrow> error + bytes" where
  "deriveKeyFromAddress_node P address =
     (case getAddress P address of
        None \<Rightarrow> Inl InvalidAddress
      | Some normalized \<Rightarrow> Inr (sha256 P (buffer_from_hex P (drop 2 normalized))))"



definition decryptMessageWithAddress :: "'t platform \<Rightarrow> string \<Rightarrow> string \<Rightarrow> error + 't" where
  "decryptMessageWithAddress P payload address =
     (let parts = js_split (CHR ''.'') payload in
      if length parts \<noteq> 3 then Inl InvalidPayload
      else
        (let iv = buffer_from_base64 P (parts ! 0);
             ciphertext = buffer_from_base64 P (parts ! 1);
             tag = buffer_from_base64 P (parts ! 2)
         in case deriveKeyFromAddress_node P address of
              Inl e \<Rightarrow> Inl e
            | Inr key \<Rightarrow>
                (case gcm_decipher P key iv tag ciphertext of
                   None \<Rightarrow> Inl AuthenticationFailure
                 | Some plaintext \<Rightarrow> Inr (buffer_to_utf8 P plaintext))))"

definition normalizeDecryptedAddress_node :: "'t platform \<Rightarrow> decrypted_value \<Rightarrow> error + string" where
  "normalizeDecryptedAddress_node P value =
     (case value of
        Str v \<Rightarrow> normalizeAddress P (if startsWith v ''0x'' then v else ''0x'' @ v)
      | BigInt v \<Rightarrow> normalizeAddress P (''0x'' @ padStart (bigint_toString16 v) 40 (CHR ''0'')))"

section \<open>What the code relies on from the platform\<close>

text \<open>
  The contracts of the library calls, as their documentation gives them. Base64 text
  decodes to the bytes it encodes and never contains a dot.
\<close>

definition base64_ok :: "'t platform \<Rightarrow> bool" where
  "base64_ok P \<longleftrightarrow>
     (\<forall>s. atob P (btoa P s) = Some s) \<and>
     (\<forall>s. CHR ''.'' \<notin> set (btoa P s)) \<and>
     (\<forall>bs. buffer_from_base64 P (buffer_to_base64 P bs) = bs) \<and>
     (\<forall>bs. CHR ''.'' \<notin> set (buffer_to_base64 P bs))"




text \<open>SHA-256 digests have 32 bytes.\<close>

definition sha256_ok :: "'t platform \<Rightarrow> bool" where
  "sha256_ok P \<longleftrightarrow> (\<forall>bs. length (sha256 P bs) = 32)"

text \<open>
  An address as \<^verbatim>\<open>ethers.getAddress\<close> returns it: \<^verbatim>\<open>0x\<close> and forty hexadecimal digits.
\<close>

definition address_shape :: "string \<Rightarrow> bool" where
  "address_shape a \<longleftrightarrow> take 2 a = ''0x'' \<and> length a = 42 \<and> list_all is_hex_digit (drop 2 a)"

definition is_lower_hex :: "char \<Rightarrow> bool" where
  "is_lower_hex c = (c \<in> set ''0123456789abcdef'')"

text \<open>
  \<^verbatim>\<open>ethers.getAddress\<close> returns a checksummed address, which it accepts unchanged; it
  accepts \<^verbatim>\<open>0x\<close> followed by forty lower-case digits; and the address it returns for a
  string of that shape differs from the string in the case of its letters only.
  \<^verbatim>\<open>Buffer.from(_, "hex")\<close> reads forty digits as \<^verbatim>\<open>hexToBytes\<close> does.
\<close>

definition getAddress_ok :: "'t platform \<Rightarrow> bool" where
  "getAddress_ok P \<longleftrightarrow>
     (\<forall>s a. getAddress P s = Some a \<longrightarrow> address_shape a \<and> getAddress P a = Some a) \<and>
     (\<forall>h. length h = 40 \<and> list_all is_lower_hex h \<longrightarrow> getAddress P (''0x'' @ h) \<noteq> None) \<and>
     (\<forall>s a. address_shape s \<and> getAddress P s = Some a \<longrightarrow>
        hex_value (drop 2 a) = hex_value (drop 2 s)) \<and>
     (\<forall>h. length h = 40 \<and> list_all is_hex_digit h \<longrightarrow> buffer_from_hex P h = hexToBytes h)"

section \<open>The ledger: contract \<^verbatim>\<open>EncryptedMessenger\<close>\<close>

type_synonym address = "160 word"
type_synonym uint256 = "256 word"
type_synonym eaddress = "256 word"
type_synonym externalEaddress = "256 word"

record Message =
  sender :: address
  encryptedMessage :: string
  encryptedKey :: eaddress
  timestamp :: uint256

text \<open>
  The storage of the contract is \<^verbatim>\<open>_messages\<close>. The second field is the access list of
  the confidential key store, which \<^verbatim>\<open>FHE.allowThis\<close> and \<^verbatim>\<open>FHE.allow\<close> write.
\<close>

record messenger_state =
  messages :: "address \<Rightarrow> Message list"
  acl :: "(eaddress \<times> address) set"

text \<open>The state of the contract when it is deployed.\<close>

definition initial_state :: messenger_state where
  "initial_state = \<lparr>messages = (\<lambda>_. []), acl = {}\<rparr>"

text \<open>What a transaction sees of its environment.\<close>

record tx_env =
  this :: address
  msg_sender :: address
  block_timestamp :: uint256

text \<open>
  Why a call reverts: the two \<^verbatim>\<open>require\<close>s of \<^verbatim>\<open>sendMessage\<close>, a revert inside
  \<^verbatim>\<open>FHE.fromExternal\<close>, and the panic of an array read out of bounds.
\<close>

datatype revert = InvalidRecipient | EmptyMessage | InvalidInputProof | IndexOutOfRange

datatype event = MessageSent address address nat

text \<open>
  Modelled from the spec: the access list of the confidential key store. \<^verbatim>\<open>FHE.allow\<close>
  and \<^verbatim>\<open>FHE.allowThis\<close> belong to the FHEVM library, whose code is not in the
  repository; following the specification's \<^verbatim>\<open>commit(value, ownerPrincipal)\<close>, a grant
  records that the account may resolve the handle.
\<close>

definition FHE_allow :: "eaddress \<Rightarrow> address \<Rightarrow> messenger_state \<Rightarrow> messenger_state" where
  "FHE_allow key account s = s\<lparr>acl := insert (key, account) (acl s)\<rparr>"

definition FHE_allowThis :: "tx_env \<Rightarrow> eaddress \<Rightarrow> messenger_state \<Rightarrow> messenger_state" where
  "FHE_allowThis env key s = FHE_allow key (this env) s"

text \<open>
  \<^verbatim>\<open>sendMessage\<close>. \<^verbatim>\<open>FHE.fromExternal\<close> verifies the input proof and returns the handle,
  or reverts; it is the parameter \<open>fromExternal\<close>. A revert leaves no state behind, so
  the function returns the new state only when it succeeds, with the event it emits.
  Lengths and indices are natural numbers: an array cannot hold as many as 2 ^ 256 elements.
\<close>

definition sendMessage ::
  "(tx_env \<Rightarrow> externalEaddress \<Rightarrow> bytes \<Rightarrow> eaddress option) \<Rightarrow> tx_env \<Rightarrow> address \<Rightarrow> string \<Rightarrow>
     externalEaddress \<Rightarrow> bytes \<Rightarrow> messenger_state \<Rightarrow> revert + (messenger_state \<times> event)" where
  "sendMessage fromExternal env recipient encrypted_message encrypted_key inputProof s =
     (if recipient = 0 then Inl InvalidRecipient
      else if \<not> length encrypted_message > 0 then Inl EmptyMessage
      else
        (case fromExternal env encrypted_key inputProof of
           None \<Rightarrow> Inl InvalidInputProof
         | Some key \<Rightarrow>
             (let s1 = s\<lparr>messages := (messages s)(recipient := messages s recipient @
                          [\<lparr>sender = msg_sender env, encryptedMessage = encrypted_message,
                            encryptedKey = key, timestamp = block_timestamp env\<rparr>])\<rparr>;
                  s2 = FHE_allowThis env key s1;
                  s3 = FHE_allow key recipient s2
              in Inr (s3, MessageSent (msg_sender env) recipient
                            (length (messages s3 recipient) - 1)))))"

definition getMessageCount :: "messenger_state \<Rightarrow> address \<Rightarrow> nat" where
  "getMessageCount s recipient = length (messages s recipient)"

definition getMessageAt ::
  "messenger_state \<Rightarrow> address \<Rightarrow> nat \<Rightarrow> revert + (address \<times> string \<times> eaddress \<times> uint256)" where
  "getMessageAt s recipient index =
     (if index < length (messages s recipient)
      then (let message = messages s recipient ! index
            in Inr (sender message, encryptedMessage message, encryptedKey message,
                    timestamp message))
      else Inl IndexOutOfRange)"

text \<open>The state a transaction leaves: a reverted call changes nothing.\<close>

definition state_after :: "messenger_state \<Rightarrow> revert + (messenger_state \<times> event) \<Rightarrow> messenger_state" where
  "state_after s r = (case r of Inl _ \<Rightarrow> s | Inr (s', _) \<Rightarrow> s')"

text \<open>A call of \<^verbatim>\<open>sendMessage\<close> with its caller and block time, and a sequence of calls.\<close>

record send_call =
  call_sender :: address
  call_time :: uint256
  call_recipient :: address
  call_message :: string
  call_key :: externalEaddress
  call_proof :: bytes

definition send :: "(tx_env \<Rightarrow> externalEaddress \<Rightarrow> bytes \<Rightarrow> eaddress option) \<Rightarrow> address \<Rightarrow>
     send_call \<Rightarrow> messenger_state \<Rightarrow> revert + (messenger_state \<times> event)" where
  "send fromExternal contract c s =
     sendMessage fromExternal
       \<lparr>this = contract, msg_sender = call_sender c, block_timestamp = call_time c\<rparr>
       (call_recipient c) (call_message c) (call_key c) (call_proof c) s"

text \<open>
  Running calls one after the other, every one of them succeeding: the final state and
  the events in the order they were emitted. The run stops at the first revert.
\<close>

fun run :: "(tx_env \<Rightarrow> externalEaddress \<Rightarrow> bytes \<Rightarrow> eaddress option) \<Rightarrow> address \<Rightarrow>
     send_call list \<Rightarrow> messenger_state \<Rightarrow> revert + (messenger_state \<times> event list)" where
  "run fromExternal contract [] s = Inr (s, [])"
| "run fromExternal contract (c # cs) s =
     (case send fromExternal contract c s of
        Inl e \<Rightarrow> Inl e
      | Inr (s', ev) \<Rightarrow>
          (case run fromExternal contract cs s' of
             Inl e \<Rightarrow> Inl e
           | Inr (s'', evs) \<Rightarrow> Inr (s'', ev # evs)))"

section \<open>The confidential key store\<close>

record authorization_proof =
  proof_principal :: address
  proof_handles :: "eaddress list"
  proof_start :: nat
  proof_duration :: nat
  proof_signed :: bool

datatype unauthorized = Unauthorized

text \<open>
  Modelled from the spec: \<^verbatim>\<open>resolve(handle, proof)\<close> of the confidential key store, a
  service outside the repository. It "returns the plaintext only if \<^verbatim>\<open>proof\<close> is valid,
  unexpired, and its principal equals the handle's owner; otherwise fails with
  \<^verbatim>\<open>Unauthorized\<close>". A proof is valid when its signature verifies (\<open>proof_signed\<close>) and
  it names the handle; it is unexpired when \<open>now\<close> lies in its validity window; an
  owner of a handle is an account that the access list grants the handle to.
\<close>

definition resolve ::
  "(eaddress \<Rightarrow> 'v) \<Rightarrow> messenger_state \<Rightarrow> nat \<Rightarrow> eaddress \<Rightarrow> authorization_proof \<Rightarrow> unauthorized + 'v" where
  "resolve plaintext s now handle proof =
     (if proof_signed proof \<and> handle \<in> set (proof_handles proof)
         \<and> proof_start proof \<le> now \<and> now \<le> proof_start proof + proof_duration proof
         \<and> (handle, proof_principal proof) \<in> acl s
      then Inr (plaintext handle)
      else Inl Unauthorized)"

section \<open>The decrypt session: \<^verbatim>\<open>Inbox.handleDecrypt\<close>\<close>















text \<open>
  The record a successful call stores: the caller, the ciphertext as passed, the handle
  that \<^verbatim>\<open>FHE.fromExternal\<close> returned, and the block time.
\<close>

definition stored_handle ::
  "(tx_env \<Rightarrow> externalEaddress \<Rightarrow> bytes \<Rightarrow> eaddress option) \<Rightarrow> address \<Rightarrow> send_call \<Rightarrow> eaddress" where
  "stored_handle fromExternal contract c =
     (case fromExternal \<lparr>this = contract, msg_sender = call_sender c, block_timestamp = call_time c\<rparr>
             (call_key c) (call_proof c) of
        Some key \<Rightarrow> key
      | None \<Rightarrow> 0)"

definition stored_record ::
  "(tx_env \<Rightarrow> externalEaddress \<Rightarrow> bytes \<Rightarrow> eaddress option) \<Rightarrow> address \<Rightarrow> send_call \<Rightarrow> Message" where
  "stored_record fromExternal contract c =
     \<lparr>sender = call_sender c, encryptedMessage = call_message c,
      encryptedKey = stored_handle fromExternal contract c, timestamp = call_time c\<rparr>"

text \<open>The calls of a sequence that are addressed to a recipient, in their order.\<close>

definition calls_to :: "address \<Rightarrow> send_call list \<Rightarrow> send_call list" where
  "calls_to r cs = filter (\<lambda>c. call_recipient c = r) cs"

section \<open>A reference platform\<close>

text \<open>
  A small executable platform that meets the contracts above: it shows that they can be
  met together, and the theorems below are instantiated at it. Its cipher is a
  one-byte mask with a checksum for a tag, its base64 is hexadecimal, and its text is
  a string of 8-bit characters; it stands for no real cryptography.
\<close>

definition to_lower_hex :: "char \<Rightarrow> char" where
  "to_lower_hex c =
     (if 65 \<le> (of_char c :: nat) \<and> (of_char c :: nat) \<le> 70 then char_of ((of_char c :: nat) + 32) else c)"

definition ref_getAddress :: "string \<Rightarrow> string option" where
  "ref_getAddress s =
     (let h = (if take 2 s = ''0x'' then drop 2 s else s)
      in if length h = 40 \<and> list_all is_hex_digit h then Some (''0x'' @ map to_lower_hex h)
         else None)"

definition ref_sha256 :: "bytes \<Rightarrow> bytes" where
  "ref_sha256 bs = take 32 (bs @ replicate 32 0)"

definition xor_sum :: "bytes \<Rightarrow> byte" where
  "xor_sum bs = foldr (XOR) bs 0"

definition ref_mask :: "bytes \<Rightarrow> bytes \<Rightarrow> byte" where
  "ref_mask key iv = xor_sum key XOR xor_sum iv"

definition ref_body :: "bytes \<Rightarrow> bytes \<Rightarrow> bytes \<Rightarrow> bytes" where
  "ref_body key iv bs = map (\<lambda>b. b XOR ref_mask key iv) bs"

definition ref_tag :: "bytes \<Rightarrow> bytes \<Rightarrow> bytes \<Rightarrow> bytes" where
  "ref_tag key iv body = replicate 15 0 @ [xor_sum body XOR ref_mask key iv]"

definition ref_cipher :: "bytes \<Rightarrow> bytes \<Rightarrow> bytes \<Rightarrow> bytes \<times> bytes" where
  "ref_cipher key iv pt = (ref_body key iv pt, ref_tag key iv (ref_body key iv pt))"

definition ref_decipher :: "bytes \<Rightarrow> bytes \<Rightarrow> bytes \<Rightarrow> bytes \<Rightarrow> bytes option" where
  "ref_decipher key iv tag ct =
     (if tag = ref_tag key iv ct then Some (ref_body key iv ct) else None)"

definition ref_subtle_encrypt :: "aes_gcm_params \<Rightarrow> bytes \<Rightarrow> bytes \<Rightarrow> bytes" where
  "ref_subtle_encrypt prm key pt =
     fst (ref_cipher key (gcm_iv prm) pt) @ snd (ref_cipher key (gcm_iv prm) pt)"

definition ref_subtle_decrypt :: "aes_gcm_params \<Rightarrow> bytes \<Rightarrow> bytes \<Rightarrow> bytes option" where
  "ref_subtle_decrypt prm key c =
     (if length c < 16 then None
      else ref_decipher key (gcm_iv prm) (drop (length c - 16) c) (take (length c - 16) c))"

definition ref_btoa :: "string \<Rightarrow> string" where
  "ref_btoa s =
     concat (map (\<lambda>c. [hex_digit ((of_char c :: nat) div 16), hex_digit ((of_char c :: nat) mod 16)]) s)"

definition ref_atob :: "string \<Rightarrow> string option" where
  "ref_atob s =
     (if even (length s) \<and> list_all is_hex_digit s then Some (map fromCharCode (hexToBytes s))
      else None)"

definition ref_platform :: "string platform" where
  "ref_platform =
     \<lparr>getAddress = ref_getAddress,
      sha256 = ref_sha256,
      subtle_encrypt = ref_subtle_encrypt,
      subtle_decrypt = ref_subtle_decrypt,
      btoa = ref_btoa,
      atob = ref_atob,
      textEncode = map charCodeAt,
      textDecode = map fromCharCode,
      gcm_cipher = ref_cipher,
      gcm_decipher = ref_decipher,
      buffer_from_hex = hexToBytes,
      buffer_to_base64 = (\<lambda>bs. ref_btoa (map fromCharCode bs)),
      buffer_from_base64 = (\<lambda>s. case ref_atob s of None \<Rightarrow> [] | Some b \<Rightarrow> map charCodeAt b),
      buffer_from_utf8 = map charCodeAt,
      buffer_to_utf8 = map fromCharCode\<rparr>"



section \<open>Strings, slices and hexadecimal\<close>

lemma fromCharCode_charCodeAt: "fromCharCode (charCodeAt c) = c"
  by (simp add: fromCharCode_def charCodeAt_def unat_of_nat)

lemma charCodeAt_fromCharCode: "charCodeAt (fromCharCode b) = b"
proof -
  have "unat b < 256" using unsigned_less [of b] by simp
  then show ?thesis by (simp add: fromCharCode_def charCodeAt_def of_char_of)
qed

lemma map_charCodeAt_fromCharCode: "map charCodeAt (map fromCharCode bs) = bs"
  by (induction bs) (simp_all add: charCodeAt_fromCharCode)

lemma js_split_nonempty: "js_split sep s \<noteq> []"
  by (induction s) (auto split: list.splits)

lemma js_split_no_sep: "sep \<notin> set s \<Longrightarrow> js_split sep s = [s]"
  by (induction s) auto

lemma js_split_append: "sep \<notin> set a \<Longrightarrow> js_split sep (a @ sep # rest) = a # js_split sep rest"
  by (induction a) auto

lemma js_split_three:
  assumes "sep \<notin> set a" "sep \<notin> set b" "sep \<notin> set c"
  shows "js_split sep (a @ [sep] @ b @ [sep] @ c) = [a, b, c]"
  using assms by (simp add: js_split_append js_split_no_sep)



lemma js_slice_head:
  "n \<le> length xs \<Longrightarrow> js_slice xs 0 (int (length xs) - int n) = take (length xs - n) xs"
  by (auto simp add: js_slice_def js_index_def nat_diff_distrib')

lemma hex_digits_all:
  "list_all (\<lambda>d. hex_digit_value (hex_digit d) = Some d \<and> is_lower_hex (hex_digit d)) [0..<16]"
  by code_simp

lemma hex_digit_value_hex_digit: "d < 16 \<Longrightarrow> hex_digit_value (hex_digit d) = Some d"
  using hex_digits_all by (simp add: list_all_iff)

lemma is_lower_hex_hex_digit: "d < 16 \<Longrightarrow> is_lower_hex (hex_digit d)"
  using hex_digits_all by (simp add: list_all_iff)

lemma is_lower_hex_is_hex_digit: "is_lower_hex c \<Longrightarrow> is_hex_digit c"
  by (auto simp add: is_lower_hex_def is_hex_digit_def hex_digit_value_def)

lemma hex_digit_value_less: "hex_digit_value c = Some d \<Longrightarrow> d < 16"
  by (auto simp add: hex_digit_value_def Let_def split: if_splits)

lemma is_hex_digit_not_special:
  assumes "is_hex_digit c"
  shows "\<not> is_js_whitespace c" "c \<noteq> CHR ''-''" "c \<noteq> CHR ''+''" "c \<noteq> CHR ''x''" "c \<noteq> CHR ''X''"
    "c \<noteq> CHR ''.''"
  using assms
  by (auto simp add: is_hex_digit_def hex_digit_value_def is_js_whitespace_def Let_def split: if_splits)

lemma parseInt16_pair:
  assumes "hex_digit_value a = Some x" "hex_digit_value b = Some y"
  shows "parseInt16 [a, b] = Some (int (16 * x + y))"
proof -
  have a: "is_hex_digit a" and b: "is_hex_digit b"
    using assms by (simp_all add: is_hex_digit_def)
  show ?thesis
    using is_hex_digit_not_special [OF a] is_hex_digit_not_special [OF b] a b assms
    by (simp add: parseInt16_def hex_value_def)
qed

lemma hexToBytes_Nil: "hexToBytes [] = []"
  by (simp add: hexToBytes_def)

lemma hexToBytes_even:
  "even (length h) \<Longrightarrow>
     hexToBytes h = map (\<lambda>i. to_uint8 (parseInt16 (take 2 (drop (i * 2) h)))) [0..<length h div 2]"
  by (simp add: hexToBytes_def)

lemma hexToBytes_Cons2:
  assumes "even (length rest)"
  shows "hexToBytes (a # b # rest) = to_uint8 (parseInt16 [a, b]) # hexToBytes rest"
proof -
  let ?f = "\<lambda>h i. to_uint8 (parseInt16 (take 2 (drop (i * 2) h)))"
  have "hexToBytes (a # b # rest) = map (?f (a # b # rest)) [0..<Suc (length rest div 2)]"
    using assms by (simp add: hexToBytes_even del: upt_Suc)
  also have "[0..<Suc (length rest div 2)] = 0 # map Suc [0..<length rest div 2]"
    by (simp add: upt_conv_Cons map_Suc_upt del: upt_Suc)
  also have "map (?f (a # b # rest)) (0 # map Suc [0..<length rest div 2]) =
      to_uint8 (parseInt16 [a, b]) # map (?f rest) [0..<length rest div 2]"
    by (simp add: comp_def)
  also have "map (?f rest) [0..<length rest div 2] = hexToBytes rest"
    using assms by (simp add: hexToBytes_even)
  finally show ?thesis .
qed


lemma to_uint8_int: "n < 256 \<Longrightarrow> unat (to_uint8 (Some (int n))) = n"
proof -
  assume n: "n < 256"
  have "to_uint8 (Some (int n)) = (word_of_nat n :: byte)"
    unfolding to_uint8_def by (simp only: option.case of_int_of_nat_eq)
  then show ?thesis using n by (simp only: unat_of_nat) simp
qed

lemma to_uint8_pair:
  assumes "hex_digit_value a = Some x" "hex_digit_value b = Some y"
  shows "unat (to_uint8 (parseInt16 [a, b])) = 16 * x + y"
proof -
  have "x < 16" "y < 16" using assms by (auto dest: hex_digit_value_less)
  then have "16 * x + y < 256" by simp
  then show ?thesis
    unfolding parseInt16_pair [OF assms] by (rule to_uint8_int)
qed

lemma length_hexToBytes: "even (length h) \<Longrightarrow> length (hexToBytes h) = length h div 2"
  by (simp add: hexToBytes_even)

lemma foldl_hexToBytes:
  "even (length h) \<Longrightarrow> list_all is_hex_digit h \<Longrightarrow>
     foldl (\<lambda>acc b. 256 * acc + unat b) acc (hexToBytes h) =
     foldl (\<lambda>acc c. 16 * acc + (case hex_digit_value c of Some d \<Rightarrow> d | None \<Rightarrow> 0)) acc h"
proof (induction h arbitrary: acc rule: induct_list012)
  case 1
  then show ?case by (simp add: hexToBytes_Nil)
next
  case (2 x)
  then show ?case by simp
next
  case (3 a b rest)
  from 3(3,4) have ev: "even (length rest)" and hex: "list_all is_hex_digit rest"
    and "is_hex_digit a" "is_hex_digit b" by simp_all
  then obtain x y where xy: "hex_digit_value a = Some x" "hex_digit_value b = Some y"
    by (auto simp add: is_hex_digit_def)
  show ?case
    using 3(1) [OF ev hex] xy
    by (simp add: hexToBytes_Cons2 [OF ev] to_uint8_pair [OF xy] add.assoc)
qed

lemma bytes_value_hexToBytes:
  "even (length h) \<Longrightarrow> list_all is_hex_digit h \<Longrightarrow> bytes_value (hexToBytes h) = hex_value h"
  by (simp add: bytes_value_def hex_value_def foldl_hexToBytes)

lemma bytes_value_snoc: "bytes_value (bs @ [b]) = 256 * bytes_value bs + unat b"
  by (simp add: bytes_value_def)

lemma be_bytes_bytes_value: "be_bytes (length bs) (bytes_value bs) = bs"
proof (induction bs rule: rev_induct)
  case Nil
  then show ?case by simp
next
  case (snoc b bs)
  have "unat b < 256" using unsigned_less [of b] by simp
  then show ?case using snoc by (simp add: bytes_value_snoc)
qed

lemma hexToBytes_be_bytes:
  assumes "length h = 2 * n" "list_all is_hex_digit h"
  shows "hexToBytes h = be_bytes n (hex_value h)"
proof -
  have "even (length h)" using assms by simp
  then have "bytes_value (hexToBytes h) = hex_value h"
    using assms by (simp add: bytes_value_hexToBytes)
  moreover have "length (hexToBytes h) = n" using assms by (simp add: length_hexToBytes)
  ultimately show ?thesis using be_bytes_bytes_value [of "hexToBytes h"] by simp
qed

section \<open>The wire format\<close>

lemma base64ToBytes_bytesToBase64:
  "base64_ok P \<Longrightarrow> base64ToBytes P (bytesToBase64 P bs) = Inr bs"
  by (simp add: base64_ok_def base64ToBytes_def bytesToBase64_def comp_def charCodeAt_fromCharCode)

lemma bytesToBase64_no_dot: "base64_ok P \<Longrightarrow> CHR ''.'' \<notin> set (bytesToBase64 P bs)"
  by (simp add: base64_ok_def bytesToBase64_def)

lemma js_split_wire:
  assumes "CHR ''.'' \<notin> set a" "CHR ''.'' \<notin> set b" "CHR ''.'' \<notin> set c"
  shows "js_split (CHR ''.'') (a @ ''.'' @ b @ ''.'' @ c) = [a, b, c]"
  using js_split_three [OF assms] by simp

text \<open>What \<^verbatim>\<open>decryptMessage\<close> does with a payload of three base64 parts.\<close>

lemma decryptMessage_wire:
  assumes "base64_ok P" and "getAddress P i = Some a"
  shows "decryptMessage P (bytesToBase64 P iv @ ''.'' @ bytesToBase64 P data @ ''.'' @ bytesToBase64 P tag) i =
     (case subtle_decrypt P \<lparr>gcm_iv = iv, gcm_additionalData = None, gcm_tagLength = None\<rparr>
             (sha256 P (hexToBytes (drop 2 a))) (data @ tag) of
        None \<Rightarrow> Inl AuthenticationFailure
      | Some decrypted \<Rightarrow> Inr (textDecode P decrypted))"
proof -
  have split: "js_split (CHR ''.'')
      (bytesToBase64 P iv @ ''.'' @ bytesToBase64 P data @ ''.'' @ bytesToBase64 P tag) =
      [bytesToBase64 P iv, bytesToBase64 P data, bytesToBase64 P tag]"
    by (rule js_split_wire) (simp_all add: bytesToBase64_no_dot [OF assms(1)])
  show ?thesis
    unfolding decryptMessage_def split Let_def
    by (simp add: base64ToBytes_bytesToBase64 [OF assms(1)] deriveKeyFromAddress_def assms(2))
qed


lemma buffer_base64_roundtrip:
  "base64_ok P \<Longrightarrow> buffer_from_base64 P (buffer_to_base64 P bs) = bs"
  by (simp add: base64_ok_def)

lemma buffer_base64_no_dot: "base64_ok P \<Longrightarrow> CHR ''.'' \<notin> set (buffer_to_base64 P bs)"
  by (simp add: base64_ok_def)

text \<open>What \<^verbatim>\<open>decryptMessageWithAddress\<close> does with a payload of three base64 parts.\<close>

lemma decryptMessageWithAddress_wire:
  assumes "base64_ok P" and "getAddress P i = Some a"
  shows "decryptMessageWithAddress P
       (buffer_to_base64 P iv @ ''.'' @ buffer_to_base64 P ct @ ''.'' @ buffer_to_base64 P tag) i =
     (case gcm_decipher P (sha256 P (buffer_from_hex P (drop 2 a))) iv tag ct of
        None \<Rightarrow> Inl AuthenticationFailure
      | Some plaintext \<Rightarrow> Inr (buffer_to_utf8 P plaintext))"
proof -
  have split: "js_split (CHR ''.'')
      (buffer_to_base64 P iv @ ''.'' @ buffer_to_base64 P ct @ ''.'' @ buffer_to_base64 P tag) =
      [buffer_to_base64 P iv, buffer_to_base64 P ct, buffer_to_base64 P tag]"
    by (rule js_split_wire) (simp_all add: buffer_base64_no_dot [OF assms(1)])
  show ?thesis
    unfolding decryptMessageWithAddress_def split Let_def
    by (simp add: buffer_base64_roundtrip [OF assms(1)] deriveKeyFromAddress_node_def assms(2))
qed


section \<open>Addresses and keys\<close>

lemma address_shape_digits:
  assumes "address_shape a"
  shows "length (drop 2 a) = 2 * 20" and "list_all is_hex_digit (drop 2 a)"
  using assms by (simp_all add: address_shape_def)

lemma address_bytes:
  assumes "address_shape a"
  shows "hexToBytes (drop 2 a) = be_bytes 20 (hex_value (drop 2 a))"
  using address_shape_digits [OF assms] by (rule hexToBytes_be_bytes)

lemma length_be_bytes: "length (be_bytes n v) = n"
  by (induction n arbitrary: v) simp_all

lemma bytes_value_address:
  assumes "address_shape a"
  shows "bytes_value (be_bytes 20 (hex_value (drop 2 a))) = hex_value (drop 2 a)"
  using address_shape_digits [OF assms] bytes_value_hexToBytes [of "drop 2 a"]
  unfolding address_bytes [OF assms, symmetric] by simp

lemma deriveKeyFromAddress_bytes:
  assumes "getAddress_ok P" and "getAddress P i = Some a"
  shows "deriveKeyFromAddress P i = Inr (sha256 P (be_bytes 20 (hex_value (drop 2 a))))"
    and "deriveKeyFromAddress_node P i = Inr (sha256 P (be_bytes 20 (hex_value (drop 2 a))))"
proof -
  from assms have shape: "address_shape a" by (auto simp add: getAddress_ok_def)
  show "deriveKeyFromAddress P i = Inr (sha256 P (be_bytes 20 (hex_value (drop 2 a))))"
    by (simp add: deriveKeyFromAddress_def assms(2) address_bytes [OF shape])
  have "buffer_from_hex P (drop 2 a) = hexToBytes (drop 2 a)"
    using assms(1) address_shape_digits [OF shape] by (simp add: getAddress_ok_def)
  then show "deriveKeyFromAddress_node P i = Inr (sha256 P (be_bytes 20 (hex_value (drop 2 a))))"
    by (simp add: deriveKeyFromAddress_node_def assms(2) address_bytes [OF shape])
qed

lemma to_hex_lower: "list_all is_lower_hex (to_hex n)"
proof (induction n rule: to_hex.induct)
  case (1 n)
  show ?case
  proof (cases "n < 16")
    case True
    then show ?thesis by (simp add: to_hex.simps [of n] is_lower_hex_hex_digit)
  next
    case False
    then show ?thesis using 1 by (simp add: to_hex.simps [of n] is_lower_hex_hex_digit)
  qed
qed

lemma hex_value_snoc:
  "hex_value (s @ [c]) = 16 * hex_value s + (case hex_digit_value c of Some d \<Rightarrow> d | None \<Rightarrow> 0)"
  by (simp add: hex_value_def)

lemma hex_value_to_hex: "hex_value (to_hex n) = n"
proof (induction n rule: to_hex.induct)
  case (1 n)
  show ?case
  proof (cases "n < 16")
    case True
    then show ?thesis
      by (simp add: to_hex.simps [of n] hex_value_def hex_digit_value_hex_digit)
  next
    case False
    then show ?thesis
      using 1 by (simp add: to_hex.simps [of n] hex_value_snoc hex_digit_value_hex_digit)
  qed
qed

lemma length_to_hex: "n < 16 ^ k \<Longrightarrow> 0 < k \<Longrightarrow> length (to_hex n) \<le> k"
proof (induction n arbitrary: k rule: to_hex.induct)
  case (1 n)
  show ?case
  proof (cases "n < 16")
    case True
    then show ?thesis using "1.prems" by (simp add: to_hex.simps [of n])
  next
    case False
    from "1.prems" obtain j where k: "k = Suc j" by (cases k) auto
    have "j \<noteq> 0" using False "1.prems" k by (cases j) auto
    moreover have "n div 16 < 16 ^ j" using "1.prems" k by (simp add: div_less_iff_less_mult mult.commute)
    ultimately have "length (to_hex (n div 16)) \<le> j" using "1.IH" [OF False, of j] by simp
    then show ?thesis using False k by (simp add: to_hex.simps [of n])
  qed
qed

lemma hex_value_zeros: "hex_value (replicate j (CHR ''0'') @ s) = hex_value s"
proof -
  have "foldl (\<lambda>acc c. 16 * acc + (case hex_digit_value c of Some d \<Rightarrow> d | None \<Rightarrow> 0)) 0
          (replicate j (CHR ''0'')) = 0"
    by (induction j) (simp_all add: hex_digit_value_def)
  then show ?thesis by (simp add: hex_value_def)
qed

lemma padStart_to_hex:
  assumes "v < 2 ^ 160"
  shows "length (padStart (bigint_toString16 (int v)) 40 (CHR ''0'')) = 40"
    and "list_all is_lower_hex (padStart (bigint_toString16 (int v)) 40 (CHR ''0''))"
    and "hex_value (padStart (bigint_toString16 (int v)) 40 (CHR ''0'')) = v"
proof -
  have s: "bigint_toString16 (int v) = to_hex v" by (simp add: bigint_toString16_def)
  have "(2::nat) ^ 160 = 16 ^ 40" by simp
  with assms have "v < 16 ^ 40" by simp
  then have len: "length (to_hex v) \<le> 40" by (rule length_to_hex) simp
  then show "length (padStart (bigint_toString16 (int v)) 40 (CHR ''0'')) = 40"
    by (simp add: s padStart_def)
  show "list_all is_lower_hex (padStart (bigint_toString16 (int v)) 40 (CHR ''0''))"
  proof -
    have "is_lower_hex (CHR ''0'')" by (simp add: is_lower_hex_def)
    then show ?thesis using to_hex_lower [of v] by (auto simp add: s padStart_def list_all_iff)
  qed
  show "hex_value (padStart (bigint_toString16 (int v)) 40 (CHR ''0'')) = v"
    by (simp add: s padStart_def hex_value_zeros hex_value_to_hex)
qed

lemma address_shape_prefix:
  assumes "address_shape a"
  shows "''0x'' @ drop 2 a = a" and "startsWith a ''0x''" and "\<not> startsWith (drop 2 a) ''0x''"
proof -
  from assms have t: "take 2 a = ''0x''" and hex: "list_all is_hex_digit (drop 2 a)"
    and len: "length (drop 2 a) = 40"
    by (simp_all add: address_shape_def)
  show "''0x'' @ drop 2 a = a" using append_take_drop_id [of 2 a] t by simp
  show "startsWith a ''0x''" using t by (simp add: startsWith_def numeral_2_eq_2)
  show "\<not> startsWith (drop 2 a) ''0x''"
  proof
    assume "startsWith (drop 2 a) ''0x''"
    then have "take 2 (drop 2 a) = ''0x''" by (simp add: startsWith_def numeral_2_eq_2)
    then obtain rest where "drop 2 a = CHR ''0'' # CHR ''x'' # rest"
      by (metis append_take_drop_id append_Cons append_Nil)
    with hex have "is_hex_digit (CHR ''x'')" by simp
    then show False by (simp add: is_hex_digit_def hex_digit_value_def)
  qed
qed

lemma base64ToBytes_not_InvalidPayload: "base64ToBytes P s \<noteq> Inl InvalidPayload"
  by (simp add: base64ToBytes_def split: option.splits)

lemma deriveKeyFromAddress_not_InvalidPayload:
  "deriveKeyFromAddress P a \<noteq> Inl InvalidPayload"
  "deriveKeyFromAddress_node P a \<noteq> Inl InvalidPayload"
  by (simp_all add: deriveKeyFromAddress_def deriveKeyFromAddress_node_def split: option.splits)

section \<open>Flipped bits\<close>







section \<open>Runs of the ledger\<close>

lemma send_Inr:
  assumes "send F contract c s = Inr (s', ev)"
  shows "call_recipient c \<noteq> 0" and "call_message c \<noteq> []"
    and "F \<lparr>this = contract, msg_sender = call_sender c, block_timestamp = call_time c\<rparr>
           (call_key c) (call_proof c) = Some (stored_handle F contract c)"
    and "messages s' = (messages s)(call_recipient c :=
           messages s (call_recipient c) @ [stored_record F contract c])"
    and "acl s' = insert (stored_handle F contract c, call_recipient c)
           (insert (stored_handle F contract c, contract) (acl s))"
    and "ev = MessageSent (call_sender c) (call_recipient c) (length (messages s (call_recipient c)))"
  using assms
  by (auto simp add: send_def sendMessage_def Let_def FHE_allow_def FHE_allowThis_def
      stored_record_def stored_handle_def split: if_splits option.splits)

lemma send_succeeds:
  assumes "call_recipient c \<noteq> 0" and "call_message c \<noteq> []"
    and "F \<lparr>this = contract, msg_sender = call_sender c, block_timestamp = call_time c\<rparr>
           (call_key c) (call_proof c) \<noteq> None"
  shows "\<exists>s' ev. send F contract c s = Inr (s', ev)"
  using assms by (auto simp add: send_def sendMessage_def Let_def)

lemma run_Cons_Inr:
  assumes "run F contract (c # cs) s0 = Inr (s, evs)"
  obtains s1 ev evs' where "send F contract c s0 = Inr (s1, ev)"
    and "run F contract cs s1 = Inr (s, evs')" and "evs = ev # evs'"
  using assms by (auto split: sum.splits prod.splits)

lemma run_messages:
  "run F contract cs s0 = Inr (s, evs) \<Longrightarrow>
     messages s r = messages s0 r @ map (stored_record F contract) (calls_to r cs)"
proof (induction cs arbitrary: s0 evs)
  case Nil
  then show ?case by (simp add: calls_to_def)
next
  case (Cons c cs)
  from Cons.prems obtain s1 ev evs' where
    1: "send F contract c s0 = Inr (s1, ev)" and 2: "run F contract cs s1 = Inr (s, evs')"
    by (rule run_Cons_Inr)
  from Cons.IH [OF 2] send_Inr(4) [OF 1] show ?case
    by (simp add: calls_to_def)
qed

lemma run_acl:
  "run F contract cs s0 = Inr (s, evs) \<Longrightarrow>
     acl s = acl s0 \<union> (\<Union>c \<in> set cs. {(stored_handle F contract c, contract),
                                      (stored_handle F contract c, call_recipient c)})"
proof (induction cs arbitrary: s0 evs)
  case Nil
  then show ?case by simp
next
  case (Cons c cs)
  from Cons.prems obtain s1 ev evs' where
    1: "send F contract c s0 = Inr (s1, ev)" and 2: "run F contract cs s1 = Inr (s, evs')"
    by (rule run_Cons_Inr)
  from Cons.IH [OF 2] send_Inr(5) [OF 1] show ?case by auto
qed

lemma run_events:
  "run F contract cs s0 = Inr (s, evs) \<Longrightarrow>
     length evs = length cs \<and>
     (\<forall>j < length cs. evs ! j =
        MessageSent (call_sender (cs ! j)) (call_recipient (cs ! j))
          (length (messages s0 (call_recipient (cs ! j)))
             + length (calls_to (call_recipient (cs ! j)) (take j cs))))"
proof (induction cs arbitrary: s0 evs)
  case Nil
  then show ?case by simp
next
  case (Cons c cs)
  from Cons.prems obtain s1 ev evs' where
    1: "send F contract c s0 = Inr (s1, ev)" and 2: "run F contract cs s1 = Inr (s, evs')"
    and 3: "evs = ev # evs'"
    by (rule run_Cons_Inr)
  note IH = Cons.IH [OF 2]
  have len: "length evs = length (c # cs)" using IH 3 by simp
  have nth: "evs ! j = MessageSent (call_sender ((c # cs) ! j)) (call_recipient ((c # cs) ! j))
          (length (messages s0 (call_recipient ((c # cs) ! j)))
             + length (calls_to (call_recipient ((c # cs) ! j)) (take j (c # cs))))"
    if "j < length (c # cs)" for j
  proof (cases j)
    case 0
    then show ?thesis using send_Inr(6) [OF 1] 3 by (simp add: calls_to_def)
  next
    case (Suc k)
    with that have k: "k < length cs" by simp
    from IH k have "evs' ! k = MessageSent (call_sender (cs ! k)) (call_recipient (cs ! k))
          (length (messages s1 (call_recipient (cs ! k)))
             + length (calls_to (call_recipient (cs ! k)) (take k cs)))" by blast
    then show ?thesis using Suc 3 send_Inr(4) [OF 1] by (simp add: calls_to_def)
  qed
  from len nth show ?case by blast
qed

lemma run_append:
  "run F contract (xs @ ys) s0 =
     (case run F contract xs s0 of
        Inl e \<Rightarrow> Inl e
      | Inr (s1, evs1) \<Rightarrow>
          (case run F contract ys s1 of
             Inl e \<Rightarrow> Inl e
           | Inr (s2, evs2) \<Rightarrow> Inr (s2, evs1 @ evs2)))"
  by (induction xs arbitrary: s0) (auto split: sum.splits prod.splits)

lemma run_prefix:
  assumes "run F contract cs s0 = Inr (s, evs)"
  shows "\<exists>sj evj. run F contract (take j cs) s0 = Inr (sj, evj)"
proof -
  have "run F contract (take j cs @ drop j cs) s0 = Inr (s, evs)" using assms by simp
  then show ?thesis unfolding run_append by (auto split: sum.splits prod.splits)
qed

lemma calls_to_take:
  "calls_to r (take j cs) = take (length (calls_to r (take j cs))) (calls_to r cs)"
proof -
  have "calls_to r cs = calls_to r (take j cs) @ calls_to r (drop j cs)"
    unfolding calls_to_def by (simp flip: filter_append)
  then show ?thesis by simp
qed

lemma length_calls_to_take: "length (calls_to r (take j cs)) \<le> length (calls_to r cs)"
proof -
  have "calls_to r cs = calls_to r (take j cs) @ calls_to r (drop j cs)"
    unfolding calls_to_def by (simp flip: filter_append)
  then show ?thesis by simp
qed

lemma getMessageAt_stored:
  assumes "messages s r = map (stored_record F contract) xs"
  shows "k < length xs \<Longrightarrow> getMessageAt s r k =
           Inr (call_sender (xs ! k), call_message (xs ! k), stored_handle F contract (xs ! k),
                call_time (xs ! k))"
    and "length xs \<le> k \<Longrightarrow> getMessageAt s r k = Inl IndexOutOfRange"
  using assms by (simp_all add: getMessageAt_def stored_record_def Let_def)

lemma run_holders:
  assumes "run F contract cs initial_state = Inr (s, evs)"
  shows "(h, p) \<in> acl s \<longleftrightarrow>
     (\<exists>c \<in> set cs. stored_handle F contract c = h \<and> (p = contract \<or> p = call_recipient c))"
  using run_acl [OF assms] by (auto simp add: initial_state_def)

lemma run_record_keys:
  assumes "run F contract cs initial_state = Inr (s, evs)"
  shows "(\<exists>m \<in> set (messages s p). encryptedKey m = h) \<longleftrightarrow>
     (\<exists>c \<in> set cs. stored_handle F contract c = h \<and> p = call_recipient c)"
  using run_messages [OF assms, of p]
  by (auto simp add: initial_state_def calls_to_def stored_record_def)

section \<open>The decrypt session\<close>








section \<open>The reference platform meets the contracts\<close>

lemma of_char_less_256: "(of_char c :: nat) < 256"
  by (rule nat_of_char_less_256)

lemma ref_btoa_Cons:
  "ref_btoa (c # s) = hex_digit ((of_char c :: nat) div 16) # hex_digit ((of_char c :: nat) mod 16) # ref_btoa s"
  by (simp add: ref_btoa_def)

lemma ref_btoa_hex: "list_all is_hex_digit (ref_btoa s) \<and> even (length (ref_btoa s))"
proof (induction s)
  case Nil
  then show ?case by (simp add: ref_btoa_def)
next
  case (Cons c s)
  have "(of_char c :: nat) div 16 < 16"
    using of_char_less_256 [of c] by (intro less_mult_imp_div_less) simp
  then show ?case using Cons
    by (simp add: ref_btoa_Cons is_lower_hex_is_hex_digit is_lower_hex_hex_digit)
qed

lemma hexToBytes_ref_btoa: "hexToBytes (ref_btoa s) = map charCodeAt s"
proof (induction s)
  case Nil
  then show ?case by (simp add: ref_btoa_def hexToBytes_Nil)
next
  case (Cons c s)
  let ?n = "of_char c :: nat"
  have d: "?n div 16 < 16"
    using of_char_less_256 [of c] by (intro less_mult_imp_div_less) simp
  have "unat (to_uint8 (parseInt16 [hex_digit (?n div 16), hex_digit (?n mod 16)])) = 16 * (?n div 16) + ?n mod 16"
    by (rule to_uint8_pair) (simp_all add: hex_digit_value_hex_digit d)
  also have "\<dots> = ?n" by simp
  also have "\<dots> = unat (charCodeAt c)"
    using of_char_less_256 [of c] by (simp add: charCodeAt_def unat_of_nat)
  finally have "to_uint8 (parseInt16 [hex_digit (?n div 16), hex_digit (?n mod 16)]) = charCodeAt c"
    by (simp only: word_unat_eq_iff)
  then show ?case
    using Cons ref_btoa_hex [of s] by (simp add: ref_btoa_Cons hexToBytes_Cons2)
qed

lemma ref_atob_btoa: "ref_atob (ref_btoa s) = Some s"
  using ref_btoa_hex [of s]
  by (simp add: ref_atob_def hexToBytes_ref_btoa comp_def fromCharCode_charCodeAt)

lemma ref_btoa_no_dot: "CHR ''.'' \<notin> set (ref_btoa s)"
  using ref_btoa_hex [of s] is_hex_digit_not_special(6) by (auto simp add: list_all_iff)

lemma base64_ok_ref: "base64_ok ref_platform"
  by (simp add: base64_ok_def ref_platform_def ref_atob_btoa ref_btoa_no_dot comp_def
      charCodeAt_fromCharCode)







lemma sha256_ok_ref: "sha256_ok ref_platform"
  by (auto simp add: sha256_ok_def ref_platform_def ref_sha256_def min_def)

lemma ref_getAddress_ones:
  "getAddress ref_platform ''0x1111111111111111111111111111111111111111''
     = Some ''0x1111111111111111111111111111111111111111''"
  by (simp add: ref_platform_def ref_getAddress_def is_hex_digit_def hex_digit_value_def
      to_lower_hex_def)

lemma hex_digit_value_to_lower_hex: "hex_digit_value (to_lower_hex c) = hex_digit_value c"
  by (auto simp add: to_lower_hex_def hex_digit_value_def Let_def of_char_of)

lemma is_hex_digit_to_lower_hex: "is_hex_digit (to_lower_hex c) = is_hex_digit c"
  by (simp add: is_hex_digit_def hex_digit_value_to_lower_hex)

lemma to_lower_hex_idem: "to_lower_hex (to_lower_hex c) = to_lower_hex c"
  by (auto simp add: to_lower_hex_def of_char_of)

lemma foldl_hex_to_lower:
  "foldl (\<lambda>acc c. 16 * acc + (case hex_digit_value c of Some d \<Rightarrow> d | None \<Rightarrow> 0)) acc
      (map to_lower_hex h) =
   foldl (\<lambda>acc c. 16 * acc + (case hex_digit_value c of Some d \<Rightarrow> d | None \<Rightarrow> 0)) acc h"
  by (induction h arbitrary: acc) (simp_all add: hex_digit_value_to_lower_hex)

lemma hex_value_to_lower: "hex_value (map to_lower_hex h) = hex_value h"
  by (simp add: hex_value_def foldl_hex_to_lower)

lemma ref_getAddress_Some:
  assumes "ref_getAddress s = Some a"
  shows "\<exists>h. a = ''0x'' @ map to_lower_hex h \<and> length h = 40 \<and> list_all is_hex_digit h
           \<and> h = (if take 2 s = ''0x'' then drop 2 s else s)"
  using assms by (auto simp add: ref_getAddress_def Let_def split: if_splits)

lemma getAddress_ok_ref: "getAddress_ok ref_platform"
proof -
  have 1: "address_shape a \<and> ref_getAddress a = Some a" if "ref_getAddress s = Some a" for s a
  proof -
    from ref_getAddress_Some [OF that] obtain h where
      h: "a = ''0x'' @ map to_lower_hex h" "length h = 40" "list_all is_hex_digit h"
      by blast
    then have hex: "list_all is_hex_digit (map to_lower_hex h)"
      by (simp add: list_all_iff is_hex_digit_to_lower_hex)
    from h hex show ?thesis
      by (simp add: address_shape_def ref_getAddress_def comp_def to_lower_hex_idem)
  qed
  have 2: "ref_getAddress (''0x'' @ h) \<noteq> None" if "length h = 40" "list_all is_lower_hex h" for h
    using that by (simp add: ref_getAddress_def list_all_iff is_lower_hex_is_hex_digit)
  have 3: "hex_value (drop 2 a) = hex_value (drop 2 s)"
    if "address_shape s" "ref_getAddress s = Some a" for s a
    using that ref_getAddress_Some [OF that(2)]
    by (auto simp add: address_shape_def hex_value_to_lower)
  show ?thesis
    unfolding getAddress_ok_def ref_platform_def
    using 1 2 3 by simp
qed

lemma to_uint8_hex_pair:
  assumes "is_hex_digit a" "is_hex_digit b"
  shows "to_uint8 (parseInt16 [a, b]) = word_of_nat (16 * the (hex_digit_value a) + the (hex_digit_value b))"
proof -
  from assms obtain x y where xy: "hex_digit_value a = Some x" "hex_digit_value b = Some y"
    by (auto simp add: is_hex_digit_def)
  show ?thesis
    unfolding parseInt16_pair [OF xy] to_uint8_def using xy
    by (simp only: option.case of_int_of_nat_eq option.sel)
qed

lemmas hex_eval = hexToBytes_Cons2 hexToBytes_Nil to_uint8_hex_pair is_hex_digit_def hex_digit_value_def

lemma ref_base64ToBytes:
  "even (length s) \<Longrightarrow> list_all is_hex_digit s \<Longrightarrow> base64ToBytes ref_platform s = Inr (hexToBytes s)"
  by (simp add: base64ToBytes_def ref_platform_def ref_atob_def comp_def charCodeAt_fromCharCode)

lemma replicate_zero_bytes:
  "replicate 12 (0::byte) = [0, 0, 0, 0, 0, 0, 0, 0, 0, 0, 0, 0]"
  "replicate 15 (0::byte) = [0, 0, 0, 0, 0, 0, 0, 0, 0, 0, 0, 0, 0, 0, 0]"
  by code_simp+

lemma ref_key_ones:
  "deriveKeyFromAddress ref_platform ''0x1111111111111111111111111111111111111111''
     = Inr [17, 17, 17, 17, 17, 17, 17, 17, 17, 17, 17, 17, 17, 17, 17, 17, 17, 17, 17, 17,
            0, 0, 0, 0, 0, 0, 0, 0, 0, 0, 0, 0]"
proof -
  have "hexToBytes ''1111111111111111111111111111111111111111''
      = [17, 17, 17, 17, 17, 17, 17, 17, 17, 17, 17, 17, 17, 17, 17, 17, 17, 17, 17, 17]"
    by (simp add: hex_eval)
  then show ?thesis
    using ref_getAddress_ones
    by (simp add: deriveKeyFromAddress_def)
       (simp add: ref_platform_def ref_sha256_def replicate_zero_bytes)
qed











section \<open>The envelope cipher\<close>





text \<open>
  C3. Key derivation. For every identifier that \<^verbatim>\<open>ethers.getAddress\<close> accepts, with
  checksummed form \<open>a\<close>, \<^verbatim>\<open>deriveKeyFromAddress\<close> returns the SHA-256 digest of the
  identifier's twenty raw bytes (the big-endian bytes of the number that the forty
  hexadecimal digits of \<open>a\<close> denote), a key of 32 bytes (256 bits), in the browser file
  and in the task file alike. The key is a function of the identifier alone: two
  identifiers whose normalised addresses denote the same twenty bytes get the same key,
  and nothing but the address enters the computation.
\<close>

theorem C3_deriveKey:
  assumes "getAddress_ok P" and "sha256_ok P" and "getAddress P i = Some a"
  shows "deriveKeyFromAddress P i = Inr (sha256 P (be_bytes 20 (hex_value (drop 2 a))))
       \<and> deriveKeyFromAddress_node P i = Inr (sha256 P (be_bytes 20 (hex_value (drop 2 a))))
       \<and> hexToBytes (drop 2 a) = be_bytes 20 (hex_value (drop 2 a))
       \<and> length (be_bytes 20 (hex_value (drop 2 a))) = 20
       \<and> bytes_value (be_bytes 20 (hex_value (drop 2 a))) = hex_value (drop 2 a)
       \<and> length (sha256 P (be_bytes 20 (hex_value (drop 2 a)))) = 32
       \<and> (\<forall>j b. getAddress P j = Some b \<and> hex_value (drop 2 b) = hex_value (drop 2 a)
             \<longrightarrow> deriveKeyFromAddress P j = deriveKeyFromAddress P i
               \<and> deriveKeyFromAddress_node P j = deriveKeyFromAddress_node P i)"
proof -
  from assms(1,3) have shape: "address_shape a" by (auto simp add: getAddress_ok_def)
  note key = deriveKeyFromAddress_bytes [OF assms(1,3)]
  have same: "\<forall>j b. getAddress P j = Some b \<and> hex_value (drop 2 b) = hex_value (drop 2 a)
             \<longrightarrow> deriveKeyFromAddress P j = deriveKeyFromAddress P i
               \<and> deriveKeyFromAddress_node P j = deriveKeyFromAddress_node P i"
    using deriveKeyFromAddress_bytes [OF assms(1)] key by simp
  show ?thesis
    using key address_bytes [OF shape] bytes_value_address [OF shape] assms(2) same
    by (simp add: length_be_bytes sha256_ok_def)
qed

theorem C3_deriveKey_witness:
  "getAddress_ok ref_platform \<and> sha256_ok ref_platform
   \<and> getAddress ref_platform ''0x1111111111111111111111111111111111111111''
       = Some ''0x1111111111111111111111111111111111111111''
   \<and> deriveKeyFromAddress ref_platform ''0x1111111111111111111111111111111111111111''
       = Inr (sha256 ref_platform
               (be_bytes 20 (hex_value (drop 2 ''0x1111111111111111111111111111111111111111''))))
   \<and> deriveKeyFromAddress_node ref_platform ''0x1111111111111111111111111111111111111111''
       = Inr (sha256 ref_platform
               (be_bytes 20 (hex_value (drop 2 ''0x1111111111111111111111111111111111111111''))))
   \<and> length (sha256 ref_platform
               (be_bytes 20 (hex_value (drop 2 ''0x1111111111111111111111111111111111111111''))))
       = 32"
  using C3_deriveKey [OF getAddress_ok_ref sha256_ok_ref ref_getAddress_ones]
    getAddress_ok_ref sha256_ok_ref ref_getAddress_ones
  by blast

text \<open>
  C4, as the code has it. Decrypting fails with the error
  \<^verbatim>\<open>'Invalid encrypted message payload'\<close> (\<^verbatim>\<open>MalformedCiphertext\<close>), and so returns no
  plaintext, exactly when the payload does not split at its dots into three parts. The
  lengths of the decoded iv and tag and the base64 of the parts are not checked by the
  decrypt functions: a payload of three parts is decoded and handed to the cipher as it
  is, and if that fails, the error is the platform's (invalid base64 in the browser, a
  failed authentication), never \<^verbatim>\<open>MalformedCiphertext\<close>.
\<close>

theorem C4_malformed_payload:
  "(decryptMessage P payload i = Inl InvalidPayload)
      = (length (js_split (CHR ''.'') payload) \<noteq> 3)
   \<and> (decryptMessageWithAddress P payload i = Inl InvalidPayload)
      = (length (js_split (CHR ''.'') payload) \<noteq> 3)
   \<and> (\<forall>a iv data tag. base64_ok P \<and> getAddress P i = Some a \<longrightarrow>
         decryptMessage P
           (bytesToBase64 P iv @ ''.'' @ bytesToBase64 P data @ ''.'' @ bytesToBase64 P tag) i =
         (case subtle_decrypt P \<lparr>gcm_iv = iv, gcm_additionalData = None, gcm_tagLength = None\<rparr>
                 (sha256 P (hexToBytes (drop 2 a))) (data @ tag) of
            None \<Rightarrow> Inl AuthenticationFailure
          | Some decrypted \<Rightarrow> Inr (textDecode P decrypted)))
   \<and> (\<forall>a iv ciphertext tag. base64_ok P \<and> getAddress P i = Some a \<longrightarrow>
         decryptMessageWithAddress P
           (buffer_to_base64 P iv @ ''.'' @ buffer_to_base64 P ciphertext @ ''.''
            @ buffer_to_base64 P tag) i =
         (case gcm_decipher P (sha256 P (buffer_from_hex P (drop 2 a))) iv tag ciphertext of
            None \<Rightarrow> Inl AuthenticationFailure
          | Some plaintext \<Rightarrow> Inr (buffer_to_utf8 P plaintext)))"
proof -
  have web: "(decryptMessage P payload i = Inl InvalidPayload)
      = (length (js_split (CHR ''.'') payload) \<noteq> 3)"
    using base64ToBytes_not_InvalidPayload [of P] deriveKeyFromAddress_not_InvalidPayload(1) [of P i]
    by (auto simp add: decryptMessage_def Let_def split: sum.splits option.splits)
  have node: "(decryptMessageWithAddress P payload i = Inl InvalidPayload)
      = (length (js_split (CHR ''.'') payload) \<noteq> 3)"
    using deriveKeyFromAddress_not_InvalidPayload(2) [of P i]
    by (auto simp add: decryptMessageWithAddress_def Let_def split: sum.splits option.splits)
  show ?thesis
    apply (intro conjI)
    subgoal by (rule web)
    subgoal by (rule node)
    subgoal using decryptMessage_wire [of P i] by blast
    subgoal using decryptMessageWithAddress_wire [of P i] by blast
    done
qed

theorem C4_malformed_payload_witness:
  "decryptMessage ref_platform ''iv.body'' ''0x1111111111111111111111111111111111111111''
     = Inl InvalidPayload
   \<and> decryptMessageWithAddress ref_platform ''iv.body.tag.more''
       ''0x1111111111111111111111111111111111111111'' = Inl InvalidPayload
   \<and> base64_ok ref_platform
   \<and> getAddress ref_platform ''0x1111111111111111111111111111111111111111''
       = Some ''0x1111111111111111111111111111111111111111''
   \<and> decryptMessage ref_platform
       (bytesToBase64 ref_platform [1] @ ''.'' @ bytesToBase64 ref_platform [] @ ''.''
        @ bytesToBase64 ref_platform [2, 3])
       ''0x1111111111111111111111111111111111111111'' = Inl AuthenticationFailure"
proof -
  note a = C4_malformed_payload [of ref_platform "''iv.body''"
      "''0x1111111111111111111111111111111111111111''"]
  note b = C4_malformed_payload [of ref_platform "''iv.body.tag.more''"
      "''0x1111111111111111111111111111111111111111''"]
  have 1: "decryptMessage ref_platform ''iv.body'' ''0x1111111111111111111111111111111111111111''
     = Inl InvalidPayload"
    using a [THEN conjunct1] by simp
  have 2: "decryptMessageWithAddress ref_platform ''iv.body.tag.more''
       ''0x1111111111111111111111111111111111111111'' = Inl InvalidPayload"
    using b [THEN conjunct2, THEN conjunct1] by simp
  have short: "subtle_decrypt ref_platform
       \<lparr>gcm_iv = [1], gcm_additionalData = None, gcm_tagLength = None\<rparr> key ([] @ [2, 3]) = None"
    for key
    by (simp add: ref_platform_def ref_subtle_decrypt_def)
  have 3: "decryptMessage ref_platform
       (bytesToBase64 ref_platform [1] @ ''.'' @ bytesToBase64 ref_platform [] @ ''.''
        @ bytesToBase64 ref_platform [2, 3])
       ''0x1111111111111111111111111111111111111111'' = Inl AuthenticationFailure"
    using a [THEN conjunct2, THEN conjunct2, THEN conjunct1, rule_format,
        OF conjI [OF base64_ok_ref ref_getAddress_ones], of "[1]" "[]" "[2, 3]"]
    by (simp only: short option.case)
  from 1 2 3 base64_ok_ref ref_getAddress_ones show ?thesis by blast
qed

text \<open>
  The claim as stated fails on a payload of three parts whose tag part is not sixteen
  bytes long: with the dot between body and tag moved to the front of the body, the
  body part is empty and the tag part decodes to seventeen bytes, and the browser's
  \<^verbatim>\<open>decryptMessage\<close>, which concatenates body and tag before it calls the cipher,
  returns the plaintext. (The payload is the ciphertext of \<^verbatim>\<open>"h"\<close> on the reference
  platform, \<^verbatim>\<open>000102030405060708090a0b.68.00000000000000000000000000000068\<close>, regrouped.)
\<close>

theorem C4_counterexample:
  "js_split (CHR ''.'') ''000102030405060708090a0b..6800000000000000000000000000000068''
     = [''000102030405060708090a0b'', '''', ''6800000000000000000000000000000068'']
   \<and> base64ToBytes ref_platform ''6800000000000000000000000000000068''
     = Inr [104, 0, 0, 0, 0, 0, 0, 0, 0, 0, 0, 0, 0, 0, 0, 0, 104]
   \<and> decryptMessage ref_platform
       ''000102030405060708090a0b..6800000000000000000000000000000068''
       ''0x1111111111111111111111111111111111111111'' = Inr ''h''"
proof -
  have split: "js_split (CHR ''.'') ''000102030405060708090a0b..6800000000000000000000000000000068''
     = [''000102030405060708090a0b'', '''', ''6800000000000000000000000000000068'']"
    by simp
  have iv: "base64ToBytes ref_platform ''000102030405060708090a0b''
     = Inr [0, 1, 2, 3, 4, 5, 6, 7, 8, 9, 10, 11]"
    by (simp add: ref_base64ToBytes hex_eval)
  have data: "base64ToBytes ref_platform '''' = Inr []"
    by (simp add: ref_base64ToBytes hex_eval)
  have tag: "base64ToBytes ref_platform ''6800000000000000000000000000000068''
     = Inr [104, 0, 0, 0, 0, 0, 0, 0, 0, 0, 0, 0, 0, 0, 0, 0, 104]"
    by (simp add: ref_base64ToBytes hex_eval)
  have dec: "subtle_decrypt ref_platform
       \<lparr>gcm_iv = [0, 1, 2, 3, 4, 5, 6, 7, 8, 9, 10, 11], gcm_additionalData = None,
        gcm_tagLength = None\<rparr>
       [17, 17, 17, 17, 17, 17, 17, 17, 17, 17, 17, 17, 17, 17, 17, 17, 17, 17, 17, 17,
            0, 0, 0, 0, 0, 0, 0, 0, 0, 0, 0, 0]
       [104, 0, 0, 0, 0, 0, 0, 0, 0, 0, 0, 0, 0, 0, 0, 0, 104] = Some [104]"
    by (simp add: ref_platform_def ref_subtle_decrypt_def ref_decipher_def ref_tag_def
        ref_body_def ref_mask_def xor_sum_def replicate_zero_bytes)
  have "fromCharCode 104 = fromCharCode (charCodeAt (CHR ''h''))"
    by (simp add: charCodeAt_def)
  then have "fromCharCode 104 = CHR ''h''"
    by (simp only: fromCharCode_charCodeAt)
  then have decoded: "textDecode ref_platform [104] = ''h''"
    by (simp add: ref_platform_def)
  have "decryptMessage ref_platform
       ''000102030405060708090a0b..6800000000000000000000000000000068''
       ''0x1111111111111111111111111111111111111111'' = Inr ''h''"
    unfolding decryptMessage_def split Let_def
    by (simp add: iv data tag ref_key_ones dec decoded)
  with split tag show ?thesis by simp
qed




text \<open>
  C10. \<^verbatim>\<open>normalizeDecryptedAddress\<close> maps a decrypted key value to the checksummed
  address it denotes. For a \<^verbatim>\<open>bigint\<close> \<open>v\<close> below \<open>2 ^ 160\<close> it pads the hexadecimal digits
  of \<open>v\<close> with zeros on the left to exactly forty digits and hands them, after \<^verbatim>\<open>0x\<close>, to
  \<^verbatim>\<open>getAddress\<close>; the result \<open>d\<close> is an address whose digits denote \<open>v\<close>, leading zero
  bytes included. For a string it prepends \<^verbatim>\<open>0x\<close> only when the string does not start
  with it, so a checksummed address is returned unchanged with or without its prefix.
  Deriving the key from \<open>d\<close> gives the SHA-256 digest of the twenty bytes of \<open>v\<close>: the
  same envelope key as that of any address \<open>A\<close> denoting \<open>v\<close>, the original ephemeral
  address among them. The browser file and the task file agree.
\<close>

theorem C10_normalizeDecryptedAddress:
  assumes "getAddress_ok P" and "v < 2 ^ 160"
  shows "\<exists>d. normalizeDecryptedAddress P (BigInt (int v)) = Inr d
           \<and> normalizeDecryptedAddress_node P (BigInt (int v)) = Inr d
           \<and> getAddress P (''0x'' @ padStart (bigint_toString16 (int v)) 40 (CHR ''0'')) = Some d
           \<and> length (padStart (bigint_toString16 (int v)) 40 (CHR ''0'')) = 40
           \<and> hex_value (padStart (bigint_toString16 (int v)) 40 (CHR ''0'')) = v
           \<and> address_shape d \<and> hex_value (drop 2 d) = v
           \<and> deriveKeyFromAddress P d = Inr (sha256 P (be_bytes 20 v))
           \<and> deriveKeyFromAddress_node P d = Inr (sha256 P (be_bytes 20 v))
           \<and> (\<forall>A a. getAddress P A = Some a \<and> hex_value (drop 2 a) = v \<longrightarrow>
                 deriveKeyFromAddress P d = deriveKeyFromAddress P A
               \<and> deriveKeyFromAddress_node P d = deriveKeyFromAddress_node P A
               \<and> normalizeDecryptedAddress P (Str a) = Inr a
               \<and> normalizeDecryptedAddress P (Str (drop 2 a)) = Inr a
               \<and> normalizeDecryptedAddress_node P (Str a) = Inr a
               \<and> normalizeDecryptedAddress_node P (Str (drop 2 a)) = Inr a)
           \<and> (\<forall>s. normalizeDecryptedAddress P (Str s) =
                 normalizeAddress P (if take 2 s = ''0x'' then s else ''0x'' @ s))"
proof -
  let ?hex = "padStart (bigint_toString16 (int v)) 40 (CHR ''0'')"
  note pad = padStart_to_hex [OF assms(2)]
  from assms(1) pad(1,2) obtain d where d: "getAddress P (''0x'' @ ?hex) = Some d"
    unfolding getAddress_ok_def by blast
  have shape_in: "address_shape (''0x'' @ ?hex)"
    using pad(1,2) by (simp add: address_shape_def list_all_iff is_lower_hex_is_hex_digit)
  from assms(1) d have shape: "address_shape d" and idem: "getAddress P d = Some d"
    unfolding getAddress_ok_def by blast+
  from assms(1) d shape_in have "hex_value (drop 2 d) = hex_value (drop 2 (''0x'' @ ?hex))"
    unfolding getAddress_ok_def by blast
  then have val: "hex_value (drop 2 d) = v" using pad(3) by simp
  note key = deriveKeyFromAddress_bytes [OF assms(1) idem, unfolded val]
  have big: "normalizeDecryptedAddress P (BigInt (int v)) = Inr d"
    "normalizeDecryptedAddress_node P (BigInt (int v)) = Inr d"
    using d by (simp_all add: normalizeDecryptedAddress_node_def normalizeAddress_def)
  have others: "deriveKeyFromAddress P d = deriveKeyFromAddress P A
               \<and> deriveKeyFromAddress_node P d = deriveKeyFromAddress_node P A
               \<and> normalizeDecryptedAddress P (Str a) = Inr a
               \<and> normalizeDecryptedAddress P (Str (drop 2 a)) = Inr a
               \<and> normalizeDecryptedAddress_node P (Str a) = Inr a
               \<and> normalizeDecryptedAddress_node P (Str (drop 2 a)) = Inr a"
    if A: "getAddress P A = Some a" and a: "hex_value (drop 2 a) = v" for A a
  proof -
    from assms(1) A have sa: "address_shape a" and fa: "getAddress P a = Some a"
      unfolding getAddress_ok_def by blast+
    note ka = deriveKeyFromAddress_bytes [OF assms(1) A, unfolded a]
    show ?thesis
      using key ka address_shape_prefix [OF sa] fa
      by (simp add: normalizeDecryptedAddress_node_def normalizeAddress_def)
  qed
  have str: "\<forall>s. normalizeDecryptedAddress P (Str s) =
                 normalizeAddress P (if take 2 s = ''0x'' then s else ''0x'' @ s)"
    by (simp add: startsWith_def numeral_2_eq_2)
  show ?thesis
    apply (rule exI [of _ d])
    using big d pad(1,3) shape val key others str by blast
qed

theorem C10_normalizeDecryptedAddress_witness:
  "getAddress_ok ref_platform \<and> (255::nat) < 2 ^ 160
   \<and> (\<exists>d. normalizeDecryptedAddress ref_platform (BigInt (int 255)) = Inr d
         \<and> length (padStart (bigint_toString16 (int 255)) 40 (CHR ''0'')) = 40
         \<and> hex_value (drop 2 d) = 255
         \<and> deriveKeyFromAddress ref_platform d = Inr (sha256 ref_platform (be_bytes 20 255)))"
proof -
  have small: "(255::nat) < 2 ^ 160" by simp
  show ?thesis
    using C10_normalizeDecryptedAddress [OF getAddress_ok_ref small] getAddress_ok_ref small
    by blast
qed

section \<open>The message ledger\<close>

text \<open>
  C6, as the code has it. \<^verbatim>\<open>sendMessage\<close> reverts with \<^verbatim>\<open>"Invalid recipient"\<close> for every
  call whose recipient is the zero address, and with \<^verbatim>\<open>"Empty message"\<close> for every call
  whose recipient is not the zero address and whose ciphertext is empty: the recipient is
  checked first. Both checks come before the first write, and the reverted call leaves
  the ledger as it was: every recipient's count and every record read the same.
\<close>

theorem C6_rejected_before_mutation:
  "(recipient = 0 \<longrightarrow>
      sendMessage F env recipient ciphertext key inputProof s = Inl InvalidRecipient)
   \<and> (recipient \<noteq> 0 \<and> ciphertext = [] \<longrightarrow>
      sendMessage F env recipient ciphertext key inputProof s = Inl EmptyMessage)
   \<and> (recipient = 0 \<or> ciphertext = [] \<longrightarrow>
      state_after s (sendMessage F env recipient ciphertext key inputProof s) = s
      \<and> (\<forall>r. getMessageCount
                (state_after s (sendMessage F env recipient ciphertext key inputProof s)) r
              = getMessageCount s r)
      \<and> (\<forall>r k. getMessageAt
                (state_after s (sendMessage F env recipient ciphertext key inputProof s)) r k
              = getMessageAt s r k))"
  by (simp add: sendMessage_def state_after_def)

theorem C6_rejected_before_mutation_witness:
  "sendMessage (\<lambda>env key inputProof. Some key)
      \<lparr>this = 100, msg_sender = 1, block_timestamp = 1000\<rparr> 0 ''a.b.c'' 11 [] initial_state
     = Inl InvalidRecipient
   \<and> sendMessage (\<lambda>env key inputProof. Some key)
      \<lparr>this = 100, msg_sender = 1, block_timestamp = 1000\<rparr> 7 '''' 11 [] initial_state
     = Inl EmptyMessage
   \<and> state_after initial_state
        (sendMessage (\<lambda>env key inputProof. Some key)
           \<lparr>this = 100, msg_sender = 1, block_timestamp = 1000\<rparr> 7 '''' 11 [] initial_state)
     = initial_state"
  using C6_rejected_before_mutation [where recipient = 0 and ciphertext = "''a.b.c''"
      and F = "\<lambda>env key inputProof. Some key"
      and env = "\<lparr>this = 100, msg_sender = 1, block_timestamp = 1000\<rparr>"
      and key = 11 and inputProof = "[]" and s = initial_state]
    C6_rejected_before_mutation [where recipient = 7 and ciphertext = "[]"
      and F = "\<lambda>env key inputProof. Some key"
      and env = "\<lparr>this = 100, msg_sender = 1, block_timestamp = 1000\<rparr>"
      and key = 11 and inputProof = "[]" and s = initial_state]
  by (simp add: state_after_def)

text \<open>
  The claim as stated fails on the call whose recipient is the zero address and whose
  ciphertext is empty: it reverts with \<^verbatim>\<open>"Invalid recipient"\<close>, not with
  \<^verbatim>\<open>"Empty message"\<close>.
\<close>

theorem C6_counterexample:
  "sendMessage (\<lambda>env key inputProof. Some key)
      \<lparr>this = 100, msg_sender = 1, block_timestamp = 1000\<rparr> 0 '''' 11 [] initial_state
     = Inl InvalidRecipient
   \<and> sendMessage (\<lambda>env key inputProof. Some key)
      \<lparr>this = 100, msg_sender = 1, block_timestamp = 1000\<rparr> 0 '''' 11 [] initial_state
     \<noteq> Inl EmptyMessage"
  by (simp add: sendMessage_def)

text \<open>
  C7. Log monotonicity. Start from the empty ledger and let a sequence of calls of
  \<^verbatim>\<open>sendMessage\<close> succeed one after the other, to any recipients. Then, for every
  recipient \<open>r\<close>: the count of an unseen recipient is 0; \<^verbatim>\<open>getMessageCount\<close> is the number
  of calls addressed to \<open>r\<close> (so \<open>n\<close> when all \<open>n\<close> calls are); \<^verbatim>\<open>getMessageAt(r, k)\<close>
  returns the sender, ciphertext, key handle and timestamp of the \<open>k\<close>-th call addressed
  to \<open>r\<close> for every \<open>k\<close> below the count, and reverts for every other \<open>k\<close>; the index
  that each call announces is the length of the recipient's log before the call (0, 1,
  2, ... in the order of the calls); and after any prefix of the calls the counts are
  no larger than at the end and every record then readable is read unchanged at the
  end.
\<close>

theorem C7_log_monotonic:
  assumes "run F contract cs initial_state = Inr (s, evs)"
  shows "(\<forall>r. getMessageCount initial_state r = 0)
       \<and> (\<forall>r. getMessageCount s r = length (calls_to r cs))
       \<and> (\<forall>r. (\<forall>c \<in> set cs. call_recipient c = r) \<longrightarrow> getMessageCount s r = length cs)
       \<and> (\<forall>r k. k < length (calls_to r cs) \<longrightarrow>
             getMessageAt s r k =
               Inr (call_sender (calls_to r cs ! k), call_message (calls_to r cs ! k),
                    stored_handle F contract (calls_to r cs ! k), call_time (calls_to r cs ! k)))
       \<and> (\<forall>r k. length (calls_to r cs) \<le> k \<longrightarrow> getMessageAt s r k = Inl IndexOutOfRange)
       \<and> length evs = length cs
       \<and> (\<forall>j < length cs. evs ! j =
             MessageSent (call_sender (cs ! j)) (call_recipient (cs ! j))
               (length (calls_to (call_recipient (cs ! j)) (take j cs))))
       \<and> (\<forall>j. \<exists>sj evj. run F contract (take j cs) initial_state = Inr (sj, evj)
             \<and> (\<forall>r. getMessageCount sj r = length (calls_to r (take j cs))
                    \<and> getMessageCount sj r \<le> getMessageCount s r
                    \<and> (\<forall>k < getMessageCount sj r. getMessageAt s r k = getMessageAt sj r k)))"
proof -
  have msgs: "messages s r = map (stored_record F contract) (calls_to r cs)" for r
    using run_messages [OF assms, of r] by (simp add: initial_state_def)
  have count: "getMessageCount s r = length (calls_to r cs)" for r
    by (simp add: getMessageCount_def msgs)
  have all: "getMessageCount s r = length cs" if "\<forall>c \<in> set cs. call_recipient c = r" for r
    using that by (simp add: count calls_to_def)
  have ev: "\<forall>j < length cs. evs ! j =
             MessageSent (call_sender (cs ! j)) (call_recipient (cs ! j))
               (length (calls_to (call_recipient (cs ! j)) (take j cs)))"
    using run_events [OF assms] by (simp add: initial_state_def)
  have prefix: "\<exists>sj evj. run F contract (take j cs) initial_state = Inr (sj, evj)
             \<and> (\<forall>r. getMessageCount sj r = length (calls_to r (take j cs))
                    \<and> getMessageCount sj r \<le> getMessageCount s r
                    \<and> (\<forall>k < getMessageCount sj r. getMessageAt s r k = getMessageAt sj r k))" for j
  proof -
    from run_prefix [OF assms, of j] obtain sj evj where
      sj: "run F contract (take j cs) initial_state = Inr (sj, evj)" by blast
    have mj: "messages sj r = map (stored_record F contract) (calls_to r (take j cs))" for r
      using run_messages [OF sj, of r] by (simp add: initial_state_def)
    have cj: "getMessageCount sj r = length (calls_to r (take j cs))" for r
      by (simp add: getMessageCount_def mj)
    have same: "getMessageAt s r k = getMessageAt sj r k" if "k < getMessageCount sj r" for r k
    proof -
      from that have k: "k < length (calls_to r (take j cs))" by (simp add: cj)
      with length_calls_to_take [of r j cs] have k': "k < length (calls_to r cs)" by simp
      have "calls_to r (take j cs) ! k = calls_to r cs ! k"
        using k by (subst calls_to_take) simp
      then show ?thesis
        using getMessageAt_stored(1) [OF msgs k'] getMessageAt_stored(1) [OF mj k] by simp
    qed
    show ?thesis
      using sj cj same length_calls_to_take [of _ j cs] count by auto
  qed
  show ?thesis
    using count all getMessageAt_stored [OF msgs] run_events [OF assms] ev prefix
    by (simp add: getMessageCount_def initial_state_def)
qed


theorem C7_log_monotonic_witness:
  "\<exists>s evs.
     run (\<lambda>env key inputProof. Some key) 100
       [\<lparr>call_sender = 1, call_time = 1000, call_recipient = 7, call_message = ''a.b.c'',
         call_key = 11, call_proof = []\<rparr>,
        \<lparr>call_sender = 2, call_time = 1001, call_recipient = 7, call_message = ''d.e.f'',
         call_key = 12, call_proof = []\<rparr>]
       initial_state = Inr (s, evs)
     \<and> getMessageCount s 7 = 2
     \<and> getMessageCount s 8 = 0
     \<and> getMessageAt s 7 0 = Inr (1, ''a.b.c'', 11, 1000)
     \<and> getMessageAt s 7 1 = Inr (2, ''d.e.f'', 12, 1001)
     \<and> getMessageAt s 7 2 = Inl IndexOutOfRange
     \<and> evs = [MessageSent 1 7 0, MessageSent 2 7 1]"
proof -
  let ?F = "\<lambda>(env::tx_env) (key::externalEaddress) (inputProof::bytes). Some key"
  let ?c1 = "\<lparr>call_sender = 1, call_time = 1000, call_recipient = 7, call_message = ''a.b.c'',
         call_key = 11, call_proof = []\<rparr>"
  let ?c2 = "\<lparr>call_sender = 2, call_time = 1001, call_recipient = 7, call_message = ''d.e.f'',
         call_key = 12, call_proof = []\<rparr>"
  have "\<exists>s evs. run ?F 100 [?c1, ?c2] initial_state = Inr (s, evs)"
    by (simp add: send_def sendMessage_def Let_def)
  then obtain s evs where r: "run ?F 100 [?c1, ?c2] initial_state = Inr (s, evs)" by blast
  note inst = C7_log_monotonic [OF r]
  have to7: "calls_to 7 [?c1, ?c2] = [?c1, ?c2]" and to8: "calls_to 8 [?c1, ?c2] = []"
    by (simp_all add: calls_to_def)
  have c: "getMessageCount s 7 = 2" "getMessageCount s 8 = 0"
    using inst by (simp_all add: to7 to8)
  have g0: "getMessageAt s 7 0 = Inr (1, ''a.b.c'', 11, 1000)"
    using inst to7 by (simp add: stored_handle_def)
  have "getMessageAt s 7 1 =
      Inr (call_sender ([?c1, ?c2] ! 1), call_message ([?c1, ?c2] ! 1),
           stored_handle ?F 100 ([?c1, ?c2] ! 1), call_time ([?c1, ?c2] ! 1))"
    using inst to7 by simp
  then have g1: "getMessageAt s 7 1 = Inr (2, ''d.e.f'', 12, 1001)"
    by (simp add: stored_handle_def)
  have g2: "getMessageAt s 7 2 = Inl IndexOutOfRange"
    using inst to7 by simp
  have "length evs = 2" using inst by simp
  moreover have "evs ! 0 = MessageSent 1 7 0" using inst by (simp add: calls_to_def)
  moreover have "evs ! 1 = MessageSent 2 7 1"
  proof -
    have "evs ! 1 = MessageSent (call_sender ([?c1, ?c2] ! 1)) (call_recipient ([?c1, ?c2] ! 1))
               (length (calls_to (call_recipient ([?c1, ?c2] ! 1)) (take 1 [?c1, ?c2])))"
      using inst by simp
    then show ?thesis by (simp add: calls_to_def)
  qed
  ultimately have e: "evs = [MessageSent 1 7 0, MessageSent 2 7 1]"
    by (cases evs; cases "tl evs") auto
  from r c g0 g1 g2 e show ?thesis by blast
qed

section \<open>The confidential key store\<close>

text \<open>
  C8, as the code has it, on the key store modelled from the specification. After any
  sequence of successful calls of \<^verbatim>\<open>sendMessage\<close> from the deployed contract, the access
  list grants a handle to the messenger contract itself (\<^verbatim>\<open>FHE.allowThis\<close>) and to the
  recipients of the records that hold the handle (\<^verbatim>\<open>FHE.allow\<close>), and to nobody else.
  So \<^verbatim>\<open>resolve\<close> returns the plaintext only for a signed, unexpired proof that names
  the handle and whose principal is the contract or a recipient whose log holds a record
  with that handle; for every other principal it fails with \<^verbatim>\<open>Unauthorized\<close>, although
  the handle can be read by anyone with \<^verbatim>\<open>getMessageAt\<close>; and the recipient of a record,
  with such a proof, does obtain the plaintext.
\<close>

theorem C8_access_scoping:
  assumes "run F contract cs initial_state = Inr (s, evs)"
  shows "(\<forall>h p. (h, p) \<in> acl s \<longleftrightarrow>
            (\<exists>c \<in> set cs. stored_handle F contract c = h
                \<and> (p = contract \<or> p = call_recipient c)))
       \<and> (\<forall>h p. (h, p) \<in> acl s \<longrightarrow>
            p = contract \<or> (\<exists>m \<in> set (messages s p). encryptedKey m = h))
       \<and> (\<forall>(plaintext :: eaddress \<Rightarrow> 'v) now h proof v. resolve plaintext s now h proof = Inr v \<longrightarrow>
            proof_signed proof \<and> h \<in> set (proof_handles proof)
            \<and> proof_start proof \<le> now \<and> now \<le> proof_start proof + proof_duration proof
            \<and> v = plaintext h
            \<and> (proof_principal proof = contract
                \<or> (\<exists>m \<in> set (messages s (proof_principal proof)). encryptedKey m = h)))
       \<and> (\<forall>(plaintext :: eaddress \<Rightarrow> 'v) now h proof.
            proof_principal proof \<noteq> contract
            \<and> (\<forall>m \<in> set (messages s (proof_principal proof)). encryptedKey m \<noteq> h) \<longrightarrow>
            resolve plaintext s now h proof = Inl Unauthorized)
       \<and> (\<forall>(plaintext :: eaddress \<Rightarrow> 'v) now proof r k. k < getMessageCount s r
            \<and> proof_principal proof = r \<and> proof_signed proof
            \<and> encryptedKey (messages s r ! k) \<in> set (proof_handles proof)
            \<and> proof_start proof \<le> now \<and> now \<le> proof_start proof + proof_duration proof \<longrightarrow>
            resolve plaintext s now (encryptedKey (messages s r ! k)) proof
              = Inr (plaintext (encryptedKey (messages s r ! k))))"
proof -
  note holders = run_holders [OF assms]
  note keys = run_record_keys [OF assms]
  have granted: "p = contract \<or> (\<exists>m \<in> set (messages s p). encryptedKey m = h)"
    if "(h, p) \<in> acl s" for h p
    using that holders [of h p] keys [of p h] by blast
  have only: "proof_signed auth \<and> h \<in> set (proof_handles auth)
            \<and> proof_start auth \<le> now \<and> now \<le> proof_start auth + proof_duration auth
            \<and> v = plaintext h
            \<and> (proof_principal auth = contract
                \<or> (\<exists>m \<in> set (messages s (proof_principal auth)). encryptedKey m = h))"
    if "resolve plaintext s now h auth = Inr v" for plaintext :: "eaddress \<Rightarrow> 'v" and now h auth v
    using that granted [of h "proof_principal auth"]
    by (auto simp add: resolve_def split: if_splits)
  have others: "resolve plaintext s now h auth = Inl Unauthorized"
    if "proof_principal auth \<noteq> contract"
      and "\<forall>m \<in> set (messages s (proof_principal auth)). encryptedKey m \<noteq> h"
    for plaintext :: "eaddress \<Rightarrow> 'v" and now h auth
    using that granted [of h "proof_principal auth"] by (auto simp add: resolve_def)
  have owner: "resolve plaintext s now (encryptedKey (messages s r ! k)) auth
              = Inr (plaintext (encryptedKey (messages s r ! k)))"
    if "k < getMessageCount s r" "proof_principal auth = r" "proof_signed auth"
      "encryptedKey (messages s r ! k) \<in> set (proof_handles auth)"
      "proof_start auth \<le> now" "now \<le> proof_start auth + proof_duration auth"
    for plaintext :: "eaddress \<Rightarrow> 'v" and now auth r k
  proof -
    from that(1) have "messages s r ! k \<in> set (messages s r)"
      by (simp add: getMessageCount_def)
    then have "\<exists>m \<in> set (messages s r). encryptedKey m = encryptedKey (messages s r ! k)"
      by blast
    then have "(encryptedKey (messages s r ! k), r) \<in> acl s"
      using holders [of "encryptedKey (messages s r ! k)" r]
        keys [of r "encryptedKey (messages s r ! k)"] by blast
    with that show ?thesis by (simp add: resolve_def)
  qed
  show ?thesis
    apply (intro conjI)
    subgoal using holders by blast
    subgoal using granted by blast
    subgoal using only by blast
    subgoal using others by blast
    subgoal using owner by blast
    done
qed


theorem C8_access_scoping_witness:
  "\<exists>s evs.
     run (\<lambda>env key inputProof. Some key) 100
       [\<lparr>call_sender = 1, call_time = 1000, call_recipient = 7, call_message = ''a.b.c'',
         call_key = 11, call_proof = []\<rparr>,
        \<lparr>call_sender = 2, call_time = 1001, call_recipient = 7, call_message = ''d.e.f'',
         call_key = 12, call_proof = []\<rparr>]
       initial_state = Inr (s, evs)
     \<and> resolve (\<lambda>h. h) s 5 11
           \<lparr>proof_principal = 9, proof_handles = [11], proof_start = 0, proof_duration = 10,
            proof_signed = True\<rparr> = Inl Unauthorized
     \<and> resolve (\<lambda>h. h) s 5 11
           \<lparr>proof_principal = 7, proof_handles = [11], proof_start = 0, proof_duration = 10,
            proof_signed = True\<rparr> = Inr 11"
proof -
  let ?F = "\<lambda>(env::tx_env) (key::externalEaddress) (inputProof::bytes). Some key"
  let ?c1 = "\<lparr>call_sender = 1, call_time = 1000, call_recipient = 7, call_message = ''a.b.c'',
         call_key = 11, call_proof = []\<rparr>"
  let ?c2 = "\<lparr>call_sender = 2, call_time = 1001, call_recipient = 7, call_message = ''d.e.f'',
         call_key = 12, call_proof = []\<rparr>"
  let ?p9 = "\<lparr>proof_principal = 9, proof_handles = [11], proof_start = 0, proof_duration = 10,
            proof_signed = True\<rparr>"
  let ?p7 = "\<lparr>proof_principal = 7, proof_handles = [11], proof_start = 0, proof_duration = 10,
            proof_signed = True\<rparr>"
  have "\<exists>s evs. run ?F 100 [?c1, ?c2] initial_state = Inr (s, evs)"
    by (simp add: send_def sendMessage_def Let_def)
  then obtain s evs where r: "run ?F 100 [?c1, ?c2] initial_state = Inr (s, evs)" by blast
  note inst = C8_access_scoping [OF r]
  have m9: "messages s 9 = []" and m7: "messages s 7 = map (stored_record ?F 100) [?c1, ?c2]"
    using run_messages [OF r, of 9] run_messages [OF r, of 7]
    by (simp_all add: initial_state_def calls_to_def)
  have stranger: "resolve (\<lambda>h. h) s 5 11 ?p9 = Inl Unauthorized"
  proof -
    have "proof_principal ?p9 \<noteq> 100
        \<and> (\<forall>m \<in> set (messages s (proof_principal ?p9)). encryptedKey m \<noteq> 11)"
      by (simp add: m9)
    with inst show ?thesis by blast
  qed
  have owner: "resolve (\<lambda>h. h) s 5 11 ?p7 = Inr 11"
  proof -
    have k: "encryptedKey (messages s 7 ! 0) = 11"
      unfolding m7 by (simp add: stored_record_def stored_handle_def)
    have c: "0 < getMessageCount s 7" by (simp add: getMessageCount_def m7)
    have "0 < getMessageCount s 7 \<and> proof_principal ?p7 = 7 \<and> proof_signed ?p7
        \<and> encryptedKey (messages s 7 ! 0) \<in> set (proof_handles ?p7)
        \<and> proof_start ?p7 \<le> 5 \<and> 5 \<le> proof_start ?p7 + proof_duration ?p7"
      by (simp add: k c)
    with inst have "resolve (\<lambda>h. h) s 5 (encryptedKey (messages s 7 ! 0)) ?p7
        = Inr ((\<lambda>h. h) (encryptedKey (messages s 7 ! 0)))"
      by blast
    then show ?thesis by (simp add: k)
  qed
  from r stranger owner show ?thesis by blast
qed

text \<open>
  The claim as stated fails: the recipient is not the only principal the store resolves
  a handle for. After \<^verbatim>\<open>sendMessage\<close> has stored handle 11 for recipient 7, a proof whose
  principal is the contract (address 100) resolves it, because of \<^verbatim>\<open>FHE.allowThis\<close>; and
  after a second call has stored the same handle for recipient 8, a proof whose principal
  is 8 resolves it as well.
\<close>

theorem C8_counterexample:
  "resolve (\<lambda>h. h)
      (state_after initial_state
         (sendMessage (\<lambda>env key inputProof. Some key)
            \<lparr>this = 100, msg_sender = 1, block_timestamp = 1000\<rparr> 7 ''a.b.c'' 11 []
            initial_state))
      5 11
      \<lparr>proof_principal = 100, proof_handles = [11], proof_start = 0, proof_duration = 10,
       proof_signed = True\<rparr> = Inr 11
   \<and> resolve (\<lambda>h. h)
      (state_after
         (state_after initial_state
            (sendMessage (\<lambda>env key inputProof. Some key)
               \<lparr>this = 100, msg_sender = 1, block_timestamp = 1000\<rparr> 7 ''a.b.c'' 11 []
               initial_state))
         (sendMessage (\<lambda>env key inputProof. Some key)
            \<lparr>this = 100, msg_sender = 1, block_timestamp = 1001\<rparr> 8 ''a.b.c'' 11 []
            (state_after initial_state
               (sendMessage (\<lambda>env key inputProof. Some key)
                  \<lparr>this = 100, msg_sender = 1, block_timestamp = 1000\<rparr> 7 ''a.b.c'' 11 []
                  initial_state))))
      5 11
      \<lparr>proof_principal = 8, proof_handles = [11], proof_start = 0, proof_duration = 10,
       proof_signed = True\<rparr> = Inr 11"
  by (simp add: sendMessage_def state_after_def resolve_def FHE_allow_def FHE_allowThis_def
      initial_state_def Let_def)

section \<open>The decrypt session\<close>




end
